theory Spec2Isabelle
  imports Complex_Main "HOL-Library.Word"
begin

unbundle bit_operations_syntax

section \<open>Rolling audio capture buffer, trimming and WAV encoding\<close>

text \<open>
  The development embeds the audio core of the recorder page: the capture callback
  \<open>onaudioprocess\<close>, which pushes each chunk and evicts old chunks, the helper
  \<open>trimAudioBuffer\<close>, the sample-count computation of \<open>transcribeAudio\<close> and the
  encoder \<open>createWavBlob\<close>.

  JavaScript numbers are modelled as follows.
  \<^item> Sample counts, sizes and offsets are integers far below \<open>2 ^ 53\<close>, where double
    arithmetic is exact: they are \<open>int\<close> or \<open>nat\<close>.
  \<^item> A sample is an element of a \<open>Float32Array\<close>. Every finite such value is a rational
    with a 24-bit significand, so its product with \<open>0x7FFF\<close> or \<open>0x8000\<close> has at
    most 40 significant bits and the double multiplication of the encoder is exact. Samples
    are therefore \<open>real\<close> and the encoder multiplies exactly. \<open>NaN\<close> and the
    infinities are not represented.
  \<^item> The duration arithmetic of \<open>transcribeAudio\<close> divides and multiplies doubles, and
    there the rounding matters. \<open>fl64\<close> rounds a real to the nearest binary64 value, ties
    to even, with gradual underflow; overflow to infinity (magnitudes from \<open>2 ^ 1024\<close>)
    is not represented.
\<close>

subsection \<open>Data model\<close>

type_synonym sample = real

text \<open>
  The refs of the component that the audio path uses: \<open>sampleRate.current\<close>,
  the state \<open>bufferLimitSeconds\<close> (the source initialises it to 30 and never changes
  it) and \<open>audioBufferRef.current\<close>, an array of chunks, oldest first.
\<close>

record session =
  sampleRate :: int
  bufferLimitSeconds :: int
  audioBuffer :: "sample list list"

text \<open>
  \<open>RangeError\<close> is what the typed-array constructor and the \<open>DataView\<close> setters
  throw. What \<open>transcribeAudio\<close> does in the end is an \<open>outcome\<close>: an alert with its
  message, or the WAV file handed to \<open>fetch\<close> as \<open>recording.wav\<close>.
\<close>

datatype error = RangeError

datatype outcome = Alert string | Posted "8 word list"

subsection \<open>Capture: push and evict\<close>

text \<open>\<^verbatim>\<open>audioBuffers.reduce((sum, buf) => sum + buf.length, 0)\<close>\<close>

definition totalSamplesOf :: "sample list list \<Rightarrow> int" where
  "totalSamplesOf audioBuffers = foldl (\<lambda>sum buf. sum + int (length buf)) 0 audioBuffers"

text \<open>
  The part of \<open>startRecording\<close> that concerns the buffer: the sample rate is taken from
  the audio context and the chunk array is cleared. Nothing is validated.
\<close>

definition start :: "int \<Rightarrow> int \<Rightarrow> session" where
  "start rate limit = \<lparr>sampleRate = rate, bufferLimitSeconds = limit, audioBuffer = []\<rparr>"

text \<open>
  \<^verbatim>\<open>while (totalSamples > maxSamples && audioBufferRef.current.length > 1) {
    const removed = audioBufferRef.current.shift()!
    totalSamples -= removed.length }\<close>
\<close>

fun evict :: "int \<Rightarrow> int \<Rightarrow> sample list list \<Rightarrow> sample list list" where
  "evict maxSamples totalSamples (removed # next # rest) =
     (if totalSamples > maxSamples
      then evict maxSamples (totalSamples - int (length removed)) (next # rest)
      else removed # next # rest)"
| "evict maxSamples totalSamples bufs = bufs"

definition onaudioprocess :: "sample list \<Rightarrow> session \<Rightarrow> session" where
  "onaudioprocess inputData s =
     (let pushed = audioBuffer s @ [inputData];
          maxSamples = sampleRate s * bufferLimitSeconds s;
          totalSamples = totalSamplesOf pushed
      in s\<lparr>audioBuffer := evict maxSamples totalSamples pushed\<rparr>)"

subsection \<open>Trimming to the last samples\<close>

text \<open>
  The state of the two nested loops of \<open>trimAudioBuffer\<close>: the output array,
  \<open>outputIndex\<close> and \<open>currentSample\<close>.
\<close>

type_synonym trim_state = "sample list \<times> nat \<times> nat"

definition trim_step :: "nat \<Rightarrow> trim_state \<Rightarrow> sample \<Rightarrow> trim_state" where
  "trim_step startSample st x =
     (case st of (trimmed, outputIndex, currentSample) \<Rightarrow>
        if currentSample \<ge> startSample \<and> outputIndex < length trimmed
        then (trimmed[outputIndex := x], outputIndex + 1, currentSample + 1)
        else (trimmed, outputIndex, currentSample + 1))"

text \<open>
  \<open>new Float32Array(n)\<close> throws a \<open>RangeError\<close> for negative \<open>n\<close> and is filled
  with zeros otherwise.
\<close>

definition trimAudioBuffer :: "sample list list \<Rightarrow> int \<Rightarrow> error + sample list" where
  "trimAudioBuffer audioBuffers samplesToKeep =
     (let totalSamples = totalSamplesOf audioBuffers;
          startSample = max 0 (totalSamples - samplesToKeep);
          len = min samplesToKeep totalSamples
      in if len < 0 then Inl RangeError
         else (case foldl (foldl (trim_step (nat startSample)))
                      (replicate (nat len) 0, 0, 0) audioBuffers of
                 (trimmed, outputIndex, currentSample) \<Rightarrow> Inr trimmed))"

subsection \<open>Double rounding\<close>

fun bitlen :: "nat \<Rightarrow> nat" where
  "bitlen n = (if n = 0 then 0 else Suc (bitlen (n div 2)))"

text \<open>The binary exponent of a positive real: the \<open>e\<close> with \<open>2 ^ e \<le> x < 2 ^ (e + 1)\<close>.\<close>

definition floor_log2 :: "real \<Rightarrow> int" where
  "floor_log2 x =
     (if 1 \<le> x then int (bitlen (nat \<lfloor>x\<rfloor>)) - 1
      else (let j = int (bitlen (nat \<lfloor>1 / x\<rfloor>))
            in if x * 2 powi (j - 1) = 1 then 1 - j else - j))"

definition round_half_even :: "real \<Rightarrow> int" where
  "round_half_even r =
     (let f = \<lfloor>r\<rfloor>; d = r - of_int f
      in if d < 1 / 2 then f
         else if 1 / 2 < d then f + 1
         else if even f then f else f + 1)"

text \<open>
  Round to nearest binary64, ties to even: a 53-bit significand, and the exponent of the
  last place never below \<open>- 1074\<close>.
\<close>

definition fl64 :: "real \<Rightarrow> real" where
  "fl64 x =
     (if x = 0 then 0
      else (let e = max (floor_log2 \<bar>x\<bar> - 52) (- 1074)
            in sgn x * of_int (round_half_even (\<bar>x\<bar> / 2 powi e)) * 2 powi e))"

subsection \<open>The snapshot of transcribeAudio\<close>

text \<open>
  \<^verbatim>\<open>const totalAvailableDuration = totalSamples / sampleRate.current
  const requestedDuration = Math.min(transcribeDurationSeconds, totalAvailableDuration)
  const samplesToKeep = Math.floor(requestedDuration * sampleRate.current)\<close>

  With a sample rate of 0 the quotient is \<open>Infinity\<close> or \<open>NaN\<close> and the product is
  \<open>0\<close> or \<open>NaN\<close>; \<open>trimAudioBuffer\<close> then allocates \<open>Float32Array(0)\<close> and copies
  nothing in both cases, which is its behaviour at \<open>samplesToKeep = 0\<close>.
\<close>

definition samplesToKeepOf :: "int \<Rightarrow> int \<Rightarrow> real \<Rightarrow> int" where
  "samplesToKeepOf rate totalSamples transcribeDurationSeconds =
     (if rate = 0 then 0
      else (let totalAvailableDuration = fl64 (of_int totalSamples / of_int rate);
                requestedDuration = min transcribeDurationSeconds totalAvailableDuration
            in \<lfloor>fl64 (requestedDuration * of_int rate)\<rfloor>))"

definition trimmedAudioData :: "session \<Rightarrow> real \<Rightarrow> error + sample list" where
  "trimmedAudioData s transcribeDurationSeconds =
     trimAudioBuffer (audioBuffer s)
       (samplesToKeepOf (sampleRate s) (totalSamplesOf (audioBuffer s))
          transcribeDurationSeconds)"

subsection \<open>DataView writes\<close>

type_synonym byte = "8 word"

text \<open>Conversion of a number to an integer truncates towards zero.\<close>

definition toInteger :: "real \<Rightarrow> int" where
  "toInteger v = (if v < 0 then \<lceil>v\<rceil> else \<lfloor>v\<rfloor>)"

definition bytes16 :: "16 word \<Rightarrow> bool \<Rightarrow> byte list" where
  "bytes16 w littleEndian =
     (let bs = [ucast w, ucast (drop_bit 8 w)] in if littleEndian then bs else rev bs)"

definition bytes32 :: "32 word \<Rightarrow> bool \<Rightarrow> byte list" where
  "bytes32 w littleEndian =
     (let bs = [ucast w, ucast (drop_bit 8 w), ucast (drop_bit 16 w), ucast (drop_bit 24 w)]
      in if littleEndian then bs else rev bs)"

text \<open>A write of \<open>bs\<close> at \<open>byteOffset\<close>; outside the buffer it throws.\<close>

definition setBytes :: "nat \<Rightarrow> byte list \<Rightarrow> byte list \<Rightarrow> error + byte list" where
  "setBytes byteOffset bs view =
     (if byteOffset + length bs > length view then Inl RangeError
      else Inr (take byteOffset view @ bs @ drop (byteOffset + length bs) view))"

definition setUint8 :: "nat \<Rightarrow> real \<Rightarrow> byte list \<Rightarrow> error + byte list" where
  "setUint8 byteOffset v view = setBytes byteOffset [word_of_int (toInteger v)] view"

definition setUint16 :: "nat \<Rightarrow> real \<Rightarrow> bool \<Rightarrow> byte list \<Rightarrow> error + byte list" where
  "setUint16 byteOffset v littleEndian view =
     setBytes byteOffset (bytes16 (word_of_int (toInteger v)) littleEndian) view"

definition setInt16 :: "nat \<Rightarrow> real \<Rightarrow> bool \<Rightarrow> byte list \<Rightarrow> error + byte list" where
  "setInt16 byteOffset v littleEndian view =
     setBytes byteOffset (bytes16 (word_of_int (toInteger v)) littleEndian) view"

definition setUint32 :: "nat \<Rightarrow> real \<Rightarrow> bool \<Rightarrow> byte list \<Rightarrow> error + byte list" where
  "setUint32 byteOffset v littleEndian view =
     setBytes byteOffset (bytes32 (word_of_int (toInteger v)) littleEndian) view"

text \<open>
  \<^verbatim>\<open>for (let i = 0; i < string.length; i++) view.setUint8(offset + i, string.charCodeAt(i))\<close>
\<close>

fun writeString :: "nat \<Rightarrow> string \<Rightarrow> byte list \<Rightarrow> error + byte list" where
  "writeString offset [] view = Inr view"
| "writeString offset (c # cs) view =
     (case setUint8 offset (of_nat (of_char c)) view of
        Inl e \<Rightarrow> Inl e
      | Inr view' \<Rightarrow> writeString (offset + 1) cs view')"

subsection \<open>The encoder\<close>

text \<open>\<^verbatim>\<open>sample < 0 ? sample * 0x8000 : sample * 0x7FFF\<close> after the clamp.\<close>

definition clampSample :: "sample \<Rightarrow> sample" where
  "clampSample x = max (- 1) (min 1 x)"

definition scaleSample :: "sample \<Rightarrow> real" where
  "scaleSample x =
     (let sample = clampSample x in if sample < 0 then sample * 32768 else sample * 32767)"

text \<open>The loop over the samples: one \<open>setInt16\<close> each, the offset advancing by 2.\<close>

fun writeSamples :: "nat \<Rightarrow> sample list \<Rightarrow> byte list \<Rightarrow> error + byte list" where
  "writeSamples offset [] view = Inr view"
| "writeSamples offset (x # xs) view =
     (case setInt16 offset (scaleSample x) True view of
        Inl e \<Rightarrow> Inl e
      | Inr view' \<Rightarrow> writeSamples (offset + 2) xs view')"

text \<open>Statements in sequence: the first one that throws ends the run.\<close>

fun runAll :: "(byte list \<Rightarrow> error + byte list) list \<Rightarrow> byte list \<Rightarrow> error + byte list" where
  "runAll [] view = Inr view"
| "runAll (stmt # stmts) view =
     (case stmt view of Inl e \<Rightarrow> Inl e | Inr view' \<Rightarrow> runAll stmts view')"

definition createWavBlob :: "sample list \<Rightarrow> int \<Rightarrow> error + byte list" where
  "createWavBlob audioData rate =
     (let len = int (length audioData);
          buffer = replicate (nat (44 + len * 2)) (0 :: byte)
      in runAll
           [writeString 0 ''RIFF'',
            setUint32 4 (of_int (36 + len * 2)) True,
            writeString 8 ''WAVE'',
            writeString 12 ''fmt '',
            setUint32 16 16 True,
            setUint16 20 1 True,
            setUint16 22 1 True,
            setUint32 24 (of_int rate) True,
            setUint32 28 (of_int (rate * 2)) True,
            setUint16 32 2 True,
            setUint16 34 16 True,
            writeString 36 ''data'',
            setUint32 40 (of_int (len * 2)) True,
            writeSamples 44 audioData]
           buffer)"

text \<open>
  \<open>transcribeAudio\<close> up to the request. It reads the length of
  \<open>audioChunksRef.current\<close>, the chunks of the media recorder, twice: on entry and, after
  stopping a running recording and waiting, once more; the two reads are the first two
  arguments. The session is the state at the read of \<open>audioBufferRef.current\<close> that
  follows. Each guard alerts and returns; an exception thrown by the trim or by the encoder
  is caught by the \<open>try\<close> block, which alerts as well. The response to the request is not
  modelled.
\<close>

definition transcribeAudio :: "nat \<Rightarrow> nat \<Rightarrow> session \<Rightarrow> real \<Rightarrow> outcome" where
  "transcribeAudio audioChunksOnEntry audioChunksAfterStop s transcribeDurationSeconds =
     (if audioChunksOnEntry = 0 then Alert ''No audio recorded''
      else if audioChunksAfterStop = 0 then Alert ''No audio data available for transcription''
      else if audioBuffer s = [] then Alert ''No raw audio data available''
      else (case trimmedAudioData s transcribeDurationSeconds of
              Inl e \<Rightarrow>
                Alert ''Error transcribing audio. Please ensure the API server is running.''
            | Inr trimmed \<Rightarrow>
                (case createWavBlob trimmed (sampleRate s) of
                   Inl e \<Rightarrow>
                     Alert ''Error transcribing audio. Please ensure the API server is running.''
                 | Inr audioBlob \<Rightarrow> Posted audioBlob)))"

subsection \<open>Reading a container back\<close>

text \<open>
  The readers of a decoder, the inverses of the little-endian setters, and the inverse of
  the quantisation formula as the specification documents it: a negative word is divided
  by 32768, any other by 32767.
\<close>

definition getUint16 :: "nat \<Rightarrow> byte list \<Rightarrow> 16 word" where
  "getUint16 byteOffset view =
     ucast (view ! byteOffset) OR push_bit 8 (ucast (view ! (byteOffset + 1)))"

definition getUint32 :: "nat \<Rightarrow> byte list \<Rightarrow> 32 word" where
  "getUint32 byteOffset view =
     ucast (view ! byteOffset) OR push_bit 8 (ucast (view ! (byteOffset + 1)))
       OR push_bit 16 (ucast (view ! (byteOffset + 2)))
       OR push_bit 24 (ucast (view ! (byteOffset + 3)))"

definition getInt16 :: "nat \<Rightarrow> byte list \<Rightarrow> int" where
  "getInt16 byteOffset view = sint (getUint16 byteOffset view)"

definition dequantize :: "int \<Rightarrow> real" where
  "dequantize w = (if w < 0 then of_int w / 32768 else of_int w / 32767)"

definition ascii :: "string \<Rightarrow> byte list" where
  "ascii str = map (\<lambda>c. word_of_nat (of_char c)) str"

subsection \<open>Names used in the statements\<close>

text \<open>The 16-bit word that the sample loop stores for a sample.\<close>

definition pcm16 :: "sample \<Rightarrow> 16 word" where
  "pcm16 x = word_of_int (toInteger (scaleSample x))"

text \<open>
  The 44-byte header as the specification lays it out, for \<open>n\<close> samples at a given rate.
\<close>

definition wavHeader :: "nat \<Rightarrow> int \<Rightarrow> byte list" where
  "wavHeader n rate =
     ascii ''RIFF'' @ bytes32 (word_of_int (36 + int n * 2)) True @ ascii ''WAVE''
     @ ascii ''fmt '' @ bytes32 16 True @ bytes16 1 True @ bytes16 1 True
     @ bytes32 (word_of_int rate) True @ bytes32 (word_of_int (rate * 2)) True
     @ bytes16 2 True @ bytes16 16 True
     @ ascii ''data'' @ bytes32 (word_of_int (int n * 2)) True"

text \<open>
  What a run of the eviction loop on \<open>bs\<close> with ceiling \<open>m\<close> leaves: the chunks \<open>r\<close>
  kept are a suffix, the chunks \<open>d\<close> dropped were needed to get under the ceiling, and
  the loop stopped under the ceiling or at a single chunk.
\<close>

definition evicted_ok ::
  "int \<Rightarrow> sample list list \<Rightarrow> sample list list \<Rightarrow> sample list list \<Rightarrow> bool" where
  "evicted_ok m bs d r \<longleftrightarrow>
     bs = d @ r \<and> (d = [] \<or> m < totalSamplesOf (last d # r))
     \<and> (length r \<le> 1 \<or> totalSamplesOf r \<le> m)"

section \<open>Properties of the capture buffer\<close>

lemma foldl_add_lengths:
  "foldl (\<lambda>sum buf. sum + int (length buf)) a bs = a + int (length (concat bs))"
  by (induction bs arbitrary: a) simp_all

lemma totalSamplesOf_concat: "totalSamplesOf bs = int (length (concat bs))"
  by (simp add: totalSamplesOf_def foldl_add_lengths)

lemma totalSamplesOf_simps [simp]:
  "totalSamplesOf [] = 0"
  "totalSamplesOf (b # bs) = int (length b) + totalSamplesOf bs"
  "totalSamplesOf (as @ bs) = totalSamplesOf as + totalSamplesOf bs"
  by (simp_all add: totalSamplesOf_concat)

lemma totalSamplesOf_nonneg: "0 \<le> totalSamplesOf bs"
  by (simp add: totalSamplesOf_concat)

lemma evict_nonempty: "bs \<noteq> [] \<Longrightarrow> evict m t bs \<noteq> []"
  by (induction m t bs rule: evict.induct) auto

lemma evict_last: "bs \<noteq> [] \<Longrightarrow> last (evict m t bs) = last bs"
  by (induction m t bs rule: evict.induct) auto

lemma last_le_totalSamplesOf: "bs \<noteq> [] \<Longrightarrow> int (length (last bs)) \<le> totalSamplesOf bs"
  by (induction bs) auto

lemma evict_big_last:
  "bs \<noteq> [] \<Longrightarrow> t = totalSamplesOf bs \<Longrightarrow> m < int (length (last bs)) \<Longrightarrow> evict m t bs = [last bs]"
proof (induction m t bs rule: evict.induct)
  case (1 m t r n rest)
  have "int (length (last (n # rest))) \<le> totalSamplesOf (n # rest)"
    by (rule last_le_totalSamplesOf) simp
  then show ?case using 1 by auto
qed auto

lemma evict_spec:
  "\<exists>d. evicted_ok m bs d (evict m (totalSamplesOf bs) bs)"
proof (induction bs)
  case Nil
  show ?case by (simp add: evicted_ok_def)
next
  case (Cons b bs)
  show ?case
  proof (cases bs)
    case Nil
    then show ?thesis by (simp add: evicted_ok_def)
  next
    case (Cons c cs)
    show ?thesis
    proof (cases "totalSamplesOf (b # bs) > m")
      case False
      then show ?thesis using Cons by (intro exI[of _ "[]"]) (simp add: evicted_ok_def)
    next
      case True
      from Cons.IH obtain d where d: "evicted_ok m bs d (evict m (totalSamplesOf bs) bs)"
        by blast
      have ev: "evict m (totalSamplesOf (b # bs)) (b # bs) = evict m (totalSamplesOf bs) bs"
        using True Cons by simp
      show ?thesis
      proof (cases "d = []")
        case True
        with d have "evict m (totalSamplesOf bs) bs = bs" by (simp add: evicted_ok_def)
        then show ?thesis using ev \<open>totalSamplesOf (b # bs) > m\<close> d
          by (intro exI[of _ "[b]"]) (simp add: evicted_ok_def)
      next
        case False
        then show ?thesis using ev d
          by (intro exI[of _ "b # d"]) (auto simp: evicted_ok_def)
      qed
    qed
  qed
qed

lemma audioBuffer_onaudioprocess:
  "audioBuffer (onaudioprocess c s)
     = evict (sampleRate s * bufferLimitSeconds s) (totalSamplesOf (audioBuffer s @ [c]))
         (audioBuffer s @ [c])"
  by (simp add: onaudioprocess_def Let_def)

lemma config_onaudioprocess [simp]:
  "sampleRate (onaudioprocess c s) = sampleRate s"
  "bufferLimitSeconds (onaudioprocess c s) = bufferLimitSeconds s"
  by (simp_all add: onaudioprocess_def Let_def)

lemma config_fold [simp]:
  "sampleRate (fold onaudioprocess cs s) = sampleRate s"
  "bufferLimitSeconds (fold onaudioprocess cs s) = bufferLimitSeconds s"
  by (induction cs arbitrary: s) simp_all

lemma fold_invariant:
  "\<exists>d. evicted_ok (rate * limit) cs d (audioBuffer (fold onaudioprocess cs (start rate limit)))"
proof (induction cs rule: rev_induct)
  case Nil
  show ?case by (simp add: evicted_ok_def start_def)
next
  case (snoc c cs)
  let ?s = "fold onaudioprocess cs (start rate limit)"
  let ?m = "rate * limit"
  let ?r = "audioBuffer ?s"
  let ?r' = "audioBuffer (onaudioprocess c ?s)"
  from snoc obtain D where D: "evicted_ok ?m cs D ?r" by blast
  have cfg: "sampleRate ?s * bufferLimitSeconds ?s = ?m" by (simp add: start_def)
  have r'_eq: "?r' = evict ?m (totalSamplesOf (?r @ [c])) (?r @ [c])"
    by (simp only: audioBuffer_onaudioprocess cfg)
  obtain d where d: "evicted_ok ?m (?r @ [c]) d ?r'"
    using evict_spec [of ?m "?r @ [c]"] unfolding r'_eq by blast
  from D have D1: "cs = D @ ?r" and D2: "D = [] \<or> ?m < totalSamplesOf (last D # ?r)"
    by (simp_all add: evicted_ok_def)
  from d have d1: "?r @ [c] = d @ ?r'" and d2: "d = [] \<or> ?m < totalSamplesOf (last d # ?r')"
    and d3: "length ?r' \<le> 1 \<or> totalSamplesOf ?r' \<le> ?m"
    by (simp_all add: evicted_ok_def)
  have "cs @ [c] = D @ (?r @ [c])" using D1 by simp
  then have e1: "cs @ [c] = (D @ d) @ ?r'" unfolding d1 by simp
  have e2: "D @ d = [] \<or> ?m < totalSamplesOf (last (D @ d) # ?r')"
  proof (cases "d = []")
    case True
    then have r': "?r' = ?r @ [c]" using d1 by simp
    show ?thesis
    proof (cases "D = []")
      case True
      then show ?thesis using \<open>d = []\<close> by simp
    next
      case False
      then have "?m < totalSamplesOf (last D # ?r)" using D2 by simp
      then have "?m < totalSamplesOf (last D # ?r')" unfolding r' by simp
      then show ?thesis using \<open>d = []\<close> by simp
    qed
  next
    case False
    then show ?thesis using d2 by simp
  qed
  have "evicted_ok ?m (cs @ [c]) (D @ d) ?r'"
    unfolding evicted_ok_def using e1 e2 d3 by blast
  then show ?case by auto
qed

lemma fold_keeps_all:
  assumes "totalSamplesOf cs \<le> rate * limit"
  shows "audioBuffer (fold onaudioprocess cs (start rate limit)) = cs"
proof -
  obtain d where d: "evicted_ok (rate * limit) cs d (audioBuffer (fold onaudioprocess cs (start rate limit)))"
    using fold_invariant by blast
  let ?r = "audioBuffer (fold onaudioprocess cs (start rate limit))"
  have "d = []"
  proof (rule ccontr)
    assume "d \<noteq> []"
    then have "rate * limit < totalSamplesOf (last d # ?r)" using d by (simp add: evicted_ok_def)
    also have "\<dots> \<le> totalSamplesOf d + totalSamplesOf ?r"
      using last_le_totalSamplesOf [OF \<open>d \<noteq> []\<close>] by simp
    also have "\<dots> = totalSamplesOf (d @ ?r)" by simp
    also have "d @ ?r = cs" using d by (simp add: evicted_ok_def)
    finally show False using assms by simp
  qed
  then show ?thesis using d by (simp add: evicted_ok_def)
qed

section \<open>Properties of the trimming loops\<close>

lemma foldl_foldl_concat: "foldl (foldl f) a xss = foldl f a (concat xss)"
  by (induction xss arbitrary: a) simp_all

lemma trim_skip:
  "c + length xs \<le> st0 \<Longrightarrow>
   foldl (trim_step st0) (t, oi, c) xs = (t, oi, c + length xs)"
  by (induction xs arbitrary: c) (simp_all add: trim_step_def)

lemma trim_copy:
  "st0 \<le> c \<Longrightarrow> oi + length xs \<le> length t \<Longrightarrow>
   foldl (trim_step st0) (t, oi, c) xs =
     (take oi t @ xs @ drop (oi + length xs) t, oi + length xs, c + length xs)"
proof (induction xs arbitrary: t oi c)
  case Nil
  then show ?case by simp
next
  case (Cons x xs)
  have "foldl (trim_step st0) (t, oi, c) (x # xs)
      = foldl (trim_step st0) (t[oi := x], oi + 1, c + 1) xs"
    using Cons.prems by (simp add: trim_step_def)
  also have "\<dots> = (take (oi + 1) (t[oi := x]) @ xs @ drop (oi + 1 + length xs) (t[oi := x]),
                    oi + 1 + length xs, c + 1 + length xs)"
    using Cons.prems by (intro Cons.IH) simp_all
  also have "take (oi + 1) (t[oi := x]) = take oi t @ [x]"
    using Cons.prems by (simp add: take_Suc_conv_app_nth)
  finally show ?case by simp
qed

text \<open>For a non-negative count the two loops return the last \<open>k\<close> samples, in order.\<close>

lemma trimAudioBuffer_drop:
  assumes "0 \<le> k"
  shows "trimAudioBuffer bs k = Inr (drop (length (concat bs) - nat k) (concat bs))"
proof -
  let ?all = "concat bs"
  let ?n = "length ?all"
  let ?start = "?n - nat k"
  let ?len = "min (nat k) ?n"
  have s: "nat (max 0 (totalSamplesOf bs - k)) = ?start"
    using assms by (simp add: totalSamplesOf_concat)
  have l: "nat (min k (totalSamplesOf bs)) = ?len"
    using assms by (simp add: totalSamplesOf_concat)
  have nn: "\<not> min k (totalSamplesOf bs) < 0"
    using assms by (simp add: totalSamplesOf_concat)
  have split: "?all = take ?start ?all @ drop ?start ?all" by simp
  have "foldl (trim_step ?start) (replicate ?len 0, 0, 0) ?all
      = foldl (trim_step ?start)
          (foldl (trim_step ?start) (replicate ?len 0, 0, 0) (take ?start ?all))
          (drop ?start ?all)"
    by (metis foldl_append split)
  also have "foldl (trim_step ?start) (replicate ?len 0, 0, 0) (take ?start ?all)
       = (replicate ?len 0, 0, 0 + length (take ?start ?all))"
    by (rule trim_skip) simp
  also have "foldl (trim_step ?start) (replicate ?len 0, 0, 0 + length (take ?start ?all))
               (drop ?start ?all)
       = (take 0 (replicate ?len 0) @ drop ?start ?all
            @ drop (0 + length (drop ?start ?all)) (replicate ?len 0),
          0 + length (drop ?start ?all),
          0 + length (take ?start ?all) + length (drop ?start ?all))"
    by (rule trim_copy) auto
  finally have "foldl (trim_step ?start) (replicate ?len 0, 0, 0) ?all
      = (drop ?start ?all, length (drop ?start ?all), ?n)"
    by auto
  then show ?thesis
    using nn by (simp add: trimAudioBuffer_def Let_def s l foldl_foldl_concat)
qed

lemma trimAudioBuffer_negative: "k < 0 \<Longrightarrow> trimAudioBuffer bs k = Inl RangeError"
  by (simp add: trimAudioBuffer_def Let_def totalSamplesOf_concat)

section \<open>Properties of the double rounding\<close>

lemma bitlen_lower: "0 < n \<Longrightarrow> 2 ^ (bitlen n - 1) \<le> n"
proof (induction n rule: bitlen.induct)
  case (1 n)
  show ?case
  proof (cases "n div 2 = 0")
    case True
    then show ?thesis using "1.prems" by (subst bitlen.simps) (simp add: bitlen.simps[of 0])
  next
    case False
    then have ih: "2 ^ (bitlen (n div 2) - 1) \<le> n div 2" using 1 by simp
    have pos: "0 < bitlen (n div 2)" using False by (subst bitlen.simps) simp
    have "bitlen n = Suc (bitlen (n div 2))" using "1.prems" by (subst bitlen.simps) simp
    then have "(2::nat) ^ (bitlen n - 1) = 2 * 2 ^ (bitlen (n div 2) - 1)"
      using pos by (cases "bitlen (n div 2)") simp_all
    also have "\<dots> \<le> 2 * (n div 2)" using ih by simp
    also have "\<dots> \<le> n" by simp
    finally show ?thesis .
  qed
qed

lemma bitlen_upper: "n < 2 ^ bitlen n"
proof (induction n rule: bitlen.induct)
  case (1 n)
  show ?case
  proof (cases "n = 0")
    case True
    then show ?thesis by simp
  next
    case False
    then have ih: "n div 2 < 2 ^ bitlen (n div 2)" using 1 by simp
    have "bitlen n = Suc (bitlen (n div 2))" using False by (subst bitlen.simps) simp
    moreover have "n < 2 * (n div 2 + 1)" by simp
    ultimately show ?thesis using ih by simp
  qed
qed

declare bitlen.simps [simp del]

lemma floor_log2_le:
  assumes "0 < x"
  shows "2 powi (floor_log2 x) \<le> x"
proof (cases "1 \<le> x")
  case True
  let ?n = "nat \<lfloor>x\<rfloor>"
  have n: "0 < ?n" using True by simp
  have "(2::real) powi (int (bitlen ?n) - 1) = 2 ^ (bitlen ?n - 1)"
    using n bitlen_upper [of ?n]
    by (cases "bitlen ?n") (simp_all add: power_int_def)
  also have "\<dots> = real (2 ^ (bitlen ?n - 1))" by simp
  also have "\<dots> \<le> real ?n" using bitlen_lower [OF n] by (simp only: of_nat_le_iff)
  also have "\<dots> \<le> x" using True by simp
  finally show ?thesis using True by (simp add: floor_log2_def)
next
  case False
  let ?n = "nat \<lfloor>1 / x\<rfloor>"
  let ?j = "int (bitlen ?n)"
  show ?thesis
  proof (cases "x * 2 powi (?j - 1) = 1")
    case True
    then have "x = 1 / 2 powi (?j - 1)" by (simp add: field_simps)
    also have "\<dots> = 2 powi (1 - ?j)" by (simp add: power_int_diff power_int_minus field_simps)
    finally show ?thesis using False True by (simp add: floor_log2_def Let_def)
  next
    case ne: False
    have "1 / x < real ?n + 1" using assms by simp
    also have "\<dots> \<le> real (2 ^ bitlen ?n)"
    proof -
      have "Suc ?n \<le> 2 ^ bitlen ?n" by (rule Suc_leI) (rule bitlen_upper)
      then have "real (Suc ?n) \<le> real (2 ^ bitlen ?n)" by (simp only: of_nat_le_iff)
      then show ?thesis by simp
    qed
    finally have "1 / x < 2 ^ bitlen ?n" by simp
    then have "1 < x * 2 ^ bitlen ?n" using assms by (simp add: field_simps)
    then have "1 / 2 ^ bitlen ?n < x" by (simp add: field_simps)
    moreover have "(2::real) powi (- ?j) = 1 / 2 ^ bitlen ?n"
      by (simp add: power_int_minus field_simps)
    ultimately show ?thesis using False ne by (simp add: floor_log2_def Let_def)
  qed
qed

lemma round_half_even_ge: "\<lfloor>r\<rfloor> \<le> round_half_even r"
  by (simp add: round_half_even_def Let_def)

lemma fl64_nonneg: "0 \<le> x \<Longrightarrow> 0 \<le> fl64 x"
proof -
  assume x: "0 \<le> x"
  show ?thesis
  proof (cases "x = 0")
    case True
    then show ?thesis by (simp add: fl64_def)
  next
    case False
    define e where "e = max (floor_log2 \<bar>x\<bar> - 52) (- 1074)"
    have "0 \<le> \<bar>x\<bar> / 2 powi e" by simp
    then have "0 \<le> \<lfloor>\<bar>x\<bar> / 2 powi e\<rfloor>" by simp
    then have "0 \<le> round_half_even (\<bar>x\<bar> / 2 powi e)"
      using round_half_even_ge [of "\<bar>x\<bar> / 2 powi e"] by linarith
    then show ?thesis using x False by (simp add: fl64_def Let_def e_def)
  qed
qed

lemma fl64_neg:
  assumes "x \<le> - (2 powi (- 1074))"
  shows "fl64 x < 0"
proof -
  have neg: "x < 0"
    using assms by (smt (verit) zero_less_power_int)
  define e where "e = max (floor_log2 \<bar>x\<bar> - 52) (- 1074)"
  have "2 powi e \<le> \<bar>x\<bar>"
  proof (cases "floor_log2 \<bar>x\<bar> - 52 \<le> - 1074")
    case True
    then have "e = - 1074" by (simp add: e_def)
    then show ?thesis using assms neg by simp
  next
    case False
    then have "e = floor_log2 \<bar>x\<bar> - 52" by (simp add: e_def)
    then have "(2::real) powi e \<le> 2 powi (floor_log2 \<bar>x\<bar>)"
      by (simp add: power_int_increasing)
    also have "\<dots> \<le> \<bar>x\<bar>" using neg by (intro floor_log2_le) simp
    finally show ?thesis .
  qed
  then have "1 \<le> \<bar>x\<bar> / 2 powi e" by (simp add: field_simps)
  then have "1 \<le> \<lfloor>\<bar>x\<bar> / 2 powi e\<rfloor>" by simp
  then have "1 \<le> round_half_even (\<bar>x\<bar> / 2 powi e)"
    using round_half_even_ge [of "\<bar>x\<bar> / 2 powi e"] by linarith
  then have pos: "0 < real_of_int (round_half_even (\<bar>x\<bar> / 2 powi e)) * 2 powi e"
    by (simp add: zero_less_mult_iff)
  have "fl64 x = sgn x * real_of_int (round_half_even (\<bar>x\<bar> / 2 powi e)) * 2 powi e"
    using neg unfolding fl64_def Let_def e_def by simp
  also have "\<dots> = - (real_of_int (round_half_even (\<bar>x\<bar> / 2 powi e)) * 2 powi e)"
    using neg by simp
  finally show ?thesis using pos by simp
qed

lemma floor_log2_less:
  assumes "0 < x"
  shows "x < 2 powi (floor_log2 x + 1)"
proof (cases "1 \<le> x")
  case True
  let ?n = "nat \<lfloor>x\<rfloor>"
  have "Suc ?n \<le> 2 ^ bitlen ?n" by (rule Suc_leI) (rule bitlen_upper)
  then have "real (Suc ?n) \<le> real (2 ^ bitlen ?n)" by (simp only: of_nat_le_iff)
  then have "real ?n + 1 \<le> 2 ^ bitlen ?n" by simp
  moreover have "x < real ?n + 1" using True by simp
  ultimately have "x < 2 ^ bitlen ?n" by linarith
  moreover have "(2::real) powi (int (bitlen ?n) - 1 + 1) = 2 ^ bitlen ?n" by simp
  ultimately show ?thesis using True by (simp add: floor_log2_def)
next
  case False
  let ?n = "nat \<lfloor>1 / x\<rfloor>"
  let ?j = "int (bitlen ?n)"
  have inv: "1 < 1 / x" using False assms by simp
  then have n: "0 < ?n" by simp
  show ?thesis
  proof (cases "x * 2 powi (?j - 1) = 1")
    case True
    then have "x = 1 / 2 powi (?j - 1)" by (simp add: field_simps)
    also have "\<dots> = 2 powi (1 - ?j)" by (simp add: power_int_diff power_int_minus field_simps)
    also have "\<dots> < 2 powi (1 - ?j + 1)" by (intro power_int_strict_increasing) simp_all
    finally show ?thesis using False True by (simp add: floor_log2_def Let_def)
  next
    case ne: False
    have "real (2 ^ (bitlen ?n - 1)) \<le> real ?n"
      using bitlen_lower [OF n] by (simp only: of_nat_le_iff)
    also have "real ?n = real_of_int \<lfloor>1 / x\<rfloor>"
    proof (rule of_nat_nat)
      have "0 \<le> 1 / x" using inv by linarith
      then show "0 \<le> \<lfloor>1 / x\<rfloor>" by (simp only: zero_le_floor)
    qed
    also have "\<dots> \<le> 1 / x" by (rule of_int_floor_le)
    finally have le: "2 ^ (bitlen ?n - 1) \<le> 1 / x" by simp
    have pw: "(2::real) powi (?j - 1) = 2 ^ (bitlen ?n - 1)"
      using n bitlen_upper [of ?n] by (cases "bitlen ?n") (simp_all add: power_int_def)
    have "x * 2 ^ (bitlen ?n - 1) \<le> 1" using le assms by (simp add: field_simps)
    moreover have "x * 2 ^ (bitlen ?n - 1) \<noteq> 1" using ne pw by simp
    ultimately have "x * 2 ^ (bitlen ?n - 1) < 1" by linarith
    then have "x < 1 / 2 ^ (bitlen ?n - 1)" by (simp add: field_simps)
    also have "1 / 2 ^ (bitlen ?n - 1) = (2::real) powi (- ?j + 1)"
      using pw by (simp add: power_int_minus [symmetric] field_simps power_int_diff)
    finally show ?thesis using False ne by (simp add: floor_log2_def Let_def)
  qed
qed

lemma nearest_bounds:
  fixes f r :: real
  shows "f \<le> r \<Longrightarrow> r < f + 1 \<Longrightarrow>
    \<bar>(if r - f < 1 / 2 then f else if 1 / 2 < r - f then f + 1 else if b then f else f + 1) - r\<bar>
      \<le> 1 / 2"
  by (auto simp: abs_if)

lemma round_half_even_near: "\<bar>real_of_int (round_half_even r) - r\<bar> \<le> 1 / 2"
proof -
  have "real_of_int (round_half_even r)
      = (if r - real_of_int \<lfloor>r\<rfloor> < 1 / 2 then real_of_int \<lfloor>r\<rfloor>
         else if 1 / 2 < r - real_of_int \<lfloor>r\<rfloor> then real_of_int \<lfloor>r\<rfloor> + 1
         else if even \<lfloor>r\<rfloor> then real_of_int \<lfloor>r\<rfloor> else real_of_int \<lfloor>r\<rfloor> + 1)"
    unfolding round_half_even_def Let_def by simp
  moreover have "real_of_int \<lfloor>r\<rfloor> \<le> r" "r < real_of_int \<lfloor>r\<rfloor> + 1" by linarith+
  ultimately show ?thesis by (simp only: nearest_bounds)
qed

text \<open>\<open>fl64\<close> is within half a unit in the last place of its argument.\<close>

lemma fl64_near:
  assumes "x \<noteq> 0"
  shows "\<bar>fl64 x - x\<bar> \<le> 2 powi (max (floor_log2 \<bar>x\<bar> - 52) (- 1074)) / 2"
proof -
  define e where "e = max (floor_log2 \<bar>x\<bar> - 52) (- 1074)"
  define m where "m = real_of_int (round_half_even (\<bar>x\<bar> / 2 powi e))"
  have p: "(0::real) < 2 powi e" by simp
  have f: "fl64 x = sgn x * m * 2 powi e"
    using assms unfolding fl64_def Let_def e_def m_def by simp
  have "\<bar>m - \<bar>x\<bar> / 2 powi e\<bar> \<le> 1 / 2" unfolding m_def by (rule round_half_even_near)
  then have "\<bar>m - \<bar>x\<bar> / 2 powi e\<bar> * 2 powi e \<le> 1 / 2 * 2 powi e"
    using p by (intro mult_right_mono) simp_all
  moreover have "\<bar>m - \<bar>x\<bar> / 2 powi e\<bar> * 2 powi e = \<bar>m * 2 powi e - \<bar>x\<bar>\<bar>"
  proof -
    have "\<bar>m - \<bar>x\<bar> / 2 powi e\<bar> * 2 powi e = \<bar>(m - \<bar>x\<bar> / 2 powi e) * 2 powi e\<bar>"
      using p by (simp add: abs_mult)
    also have "(m - \<bar>x\<bar> / 2 powi e) * 2 powi e = m * 2 powi e - \<bar>x\<bar>"
      using p by (simp add: field_simps)
    finally show ?thesis .
  qed
  moreover have "\<bar>fl64 x - x\<bar> = \<bar>m * 2 powi e - \<bar>x\<bar>\<bar>"
  proof (cases "x < 0")
    case True
    then have "fl64 x - x = - (m * 2 powi e - \<bar>x\<bar>)" unfolding f by simp
    then show ?thesis by simp
  next
    case False
    then have "fl64 x - x = m * 2 powi e - \<bar>x\<bar>" using assms unfolding f by simp
    then show ?thesis by simp
  qed
  ultimately show ?thesis unfolding e_def [symmetric] by simp
qed

section \<open>Properties of the encoder\<close>

lemma toInteger_of_int [simp]: "toInteger (of_int k) = k"
  by (simp add: toInteger_def)

lemma toInteger_numeral [simp]: "toInteger (numeral k) = numeral k" "toInteger 1 = 1" "toInteger 0 = 0"
  by (simp_all add: toInteger_def)

lemma length_bytes16 [simp]: "length (bytes16 w le) = 2"
  by (simp add: bytes16_def Let_def)

lemma length_bytes32 [simp]: "length (bytes32 w le) = 4"
  by (simp add: bytes32_def Let_def)

lemma setBytes_at:
  "length pre = off \<Longrightarrow> length bs \<le> length rest \<Longrightarrow>
   setBytes off bs (pre @ rest) = Inr (pre @ bs @ drop (length bs) rest)"
  by (simp add: setBytes_def)

lemma writeSamples_fill:
  "length pre = off \<Longrightarrow>
   writeSamples off xs (pre @ replicate (2 * length xs) 0)
     = Inr (pre @ concat (map (\<lambda>x. bytes16 (pcm16 x) True) xs))"
proof (induction xs arbitrary: pre off)
  case Nil
  then show ?case by simp
next
  case (Cons x xs)
  have "setInt16 off (scaleSample x) True (pre @ replicate (2 * length (x # xs)) 0)
      = Inr (pre @ bytes16 (pcm16 x) True @ drop 2 (replicate (2 * length (x # xs)) 0))"
    unfolding setInt16_def pcm16_def using Cons.prems
    by (subst setBytes_at) simp_all
  then have st: "setInt16 off (scaleSample x) True (pre @ replicate (2 * length (x # xs)) 0)
      = Inr ((pre @ bytes16 (pcm16 x) True) @ replicate (2 * length xs) 0)"
    by simp
  have "writeSamples (off + 2) xs ((pre @ bytes16 (pcm16 x) True) @ replicate (2 * length xs) 0)
      = Inr ((pre @ bytes16 (pcm16 x) True) @ concat (map (\<lambda>x. bytes16 (pcm16 x) True) xs))"
    using Cons.prems by (intro Cons.IH) simp
  then show ?case
    using st by simp
qed

lemma runAll_snoc:
  "runAll (stmts @ [stmt]) view = (case runAll stmts view of Inl e \<Rightarrow> Inl e | Inr v \<Rightarrow> stmt v)"
  by (induction stmts arbitrary: view) (auto split: sum.splits)

lemma buffer_split:
  "replicate (nat (44 + int n * 2)) (x :: byte)
     = [x,x,x,x, x,x,x,x, x,x,x,x, x,x,x,x, x,x,x,x, x,x,x,x, x,x,x,x, x,x,x,x, x,x,x,x,
        x,x,x,x, x,x,x,x] @ replicate (2 * n) x"
proof -
  have "nat (44 + int n * 2) = 44 + 2 * n" by simp
  then have "replicate (nat (44 + int n * 2)) x = replicate 44 x @ replicate (2 * n) x"
    by (simp add: replicate_add)
  also have "replicate 44 x = [x,x,x,x, x,x,x,x, x,x,x,x, x,x,x,x, x,x,x,x, x,x,x,x,
        x,x,x,x, x,x,x,x, x,x,x,x, x,x,x,x, x,x,x,x]"
    by (simp add: numeral_eq_Suc)
  finally show ?thesis .
qed

lemma length_wavHeader [simp]: "length (wavHeader n rate) = 44"
  by (simp add: wavHeader_def ascii_def)

lemma header_writes_gen:
  "runAll
     [writeString 0 ''RIFF'',
      setUint32 4 (of_int a) True,
      writeString 8 ''WAVE'',
      writeString 12 ''fmt '',
      setUint32 16 16 True,
      setUint16 20 1 True,
      setUint16 22 1 True,
      setUint32 24 (of_int r) True,
      setUint32 28 (of_int b) True,
      setUint16 32 2 True,
      setUint16 34 16 True,
      writeString 36 ''data'',
      setUint32 40 (of_int c) True]
     ([0,0,0,0, 0,0,0,0, 0,0,0,0, 0,0,0,0, 0,0,0,0, 0,0,0,0, 0,0,0,0, 0,0,0,0, 0,0,0,0,
        0,0,0,0, 0,0,0,0] @ rest)
   = Inr ((ascii ''RIFF'' @ bytes32 (word_of_int a) True @ ascii ''WAVE''
     @ ascii ''fmt '' @ bytes32 16 True @ bytes16 1 True @ bytes16 1 True
     @ bytes32 (word_of_int r) True @ bytes32 (word_of_int b) True
     @ bytes16 2 True @ bytes16 16 True
     @ ascii ''data'' @ bytes32 (word_of_int c) True) @ rest)"
  by (simp add: setUint8_def setUint16_def setUint32_def setBytes_def ascii_def
      bytes16_def bytes32_def Let_def)

lemma header_writes:
  "runAll
     [writeString 0 ''RIFF'',
      setUint32 4 (of_int (36 + int n * 2)) True,
      writeString 8 ''WAVE'',
      writeString 12 ''fmt '',
      setUint32 16 16 True,
      setUint16 20 1 True,
      setUint16 22 1 True,
      setUint32 24 (of_int rate) True,
      setUint32 28 (of_int (rate * 2)) True,
      setUint16 32 2 True,
      setUint16 34 16 True,
      writeString 36 ''data'',
      setUint32 40 (of_int (int n * 2)) True]
     (replicate (nat (44 + int n * 2)) 0)
   = Inr (wavHeader n rate @ replicate (2 * n) 0)"
  unfolding buffer_split wavHeader_def by (rule header_writes_gen)

lemma createWavBlob_layout:
  "createWavBlob xs rate
     = Inr (wavHeader (length xs) rate @ concat (map (\<lambda>x. bytes16 (pcm16 x) True) xs))"
proof -
  let ?hdr = "[writeString 0 ''RIFF'',
      setUint32 4 (of_int (36 + int (length xs) * 2)) True,
      writeString 8 ''WAVE'',
      writeString 12 ''fmt '',
      setUint32 16 16 True,
      setUint16 20 1 True,
      setUint16 22 1 True,
      setUint32 24 (of_int rate) True,
      setUint32 28 (of_int (rate * 2)) True,
      setUint16 32 2 True,
      setUint16 34 16 True,
      writeString 36 ''data'',
      setUint32 40 (of_int (int (length xs) * 2)) True]"
  let ?buf = "replicate (nat (44 + int (length xs) * 2)) (0 :: byte)"
  have "createWavBlob xs rate = runAll (?hdr @ [writeSamples 44 xs]) ?buf"
    by (simp only: createWavBlob_def Let_def append.simps)
  also have "\<dots> = (case runAll ?hdr ?buf of Inl e \<Rightarrow> Inl e | Inr v \<Rightarrow> writeSamples 44 xs v)"
    by (rule runAll_snoc)
  also have "\<dots> = writeSamples 44 xs (wavHeader (length xs) rate @ replicate (2 * length xs) 0)"
    by (simp only: header_writes sum.case)
  also have "\<dots> = Inr (wavHeader (length xs) rate @ concat (map (\<lambda>x. bytes16 (pcm16 x) True) xs))"
    by (rule writeSamples_fill) simp
  finally show ?thesis .
qed

section \<open>Properties of the readers and of the quantisation\<close>

lemma word16_of_bytes:
  "ucast (ucast w :: 8 word) OR push_bit 8 (ucast (ucast (drop_bit 8 w) :: 8 word)) = (w :: 16 word)"
  by (rule bit_word_eqI) (auto simp: bit_simps)

lemma word32_of_bytes:
  "ucast (ucast w :: 8 word) OR push_bit 8 (ucast (ucast (drop_bit 8 w) :: 8 word))
   OR push_bit 16 (ucast (ucast (drop_bit 16 w) :: 8 word))
   OR push_bit 24 (ucast (ucast (drop_bit 24 w) :: 8 word)) = (w :: 32 word)"
proof (rule bit_word_eqI)
  fix n
  assume "n < LENGTH(32)"
  consider "n < 8" | "8 \<le> n" "n < 16" | "16 \<le> n" "n < 24" | "24 \<le> n" by linarith
  then show "bit (ucast (ucast w :: 8 word) OR push_bit 8 (ucast (ucast (drop_bit 8 w) :: 8 word))
   OR push_bit 16 (ucast (ucast (drop_bit 16 w) :: 8 word))
   OR push_bit 24 (ucast (ucast (drop_bit 24 w) :: 8 word)) :: 32 word) n = bit w n"
    using \<open>n < LENGTH(32)\<close> by cases (auto simp: bit_simps)
qed

lemma getUint16_at:
  "length pre = off \<Longrightarrow> getUint16 off (pre @ bytes16 w True @ post) = w"
  by (simp add: getUint16_def bytes16_def nth_append word16_of_bytes)

lemma getUint32_at:
  "length pre = off \<Longrightarrow> getUint32 off (pre @ bytes32 w True @ post) = w"
  by (simp add: getUint32_def bytes32_def nth_append word32_of_bytes)

lemma header_fields:
  "getUint32 4 (wavHeader n rate @ payload) = word_of_int (36 + int n * 2)"
  "getUint16 20 (wavHeader n rate @ payload) = 1"
  "getUint16 22 (wavHeader n rate @ payload) = 1"
  "getUint32 24 (wavHeader n rate @ payload) = word_of_int rate"
  "getUint32 28 (wavHeader n rate @ payload) = word_of_int (rate * 2)"
  "getUint16 32 (wavHeader n rate @ payload) = 2"
  "getUint16 34 (wavHeader n rate @ payload) = 16"
  "getUint32 40 (wavHeader n rate @ payload) = word_of_int (int n * 2)"
  by (simp_all add: wavHeader_def ascii_def bytes32_def bytes16_def getUint32_def getUint16_def
      word32_of_bytes word16_of_bytes del: of_int_add of_int_mult)

lemma payload_word:
  "i < length xs \<Longrightarrow> length pre = off \<Longrightarrow>
   getUint16 (off + 2 * i) (pre @ concat (map (\<lambda>x. bytes16 (pcm16 x) True) xs)) = pcm16 (xs ! i)"
proof (induction xs arbitrary: i pre off)
  case Nil
  then show ?case by simp
next
  case (Cons x xs)
  show ?case
  proof (cases i)
    case 0
    then show ?thesis using Cons.prems getUint16_at [of pre off "pcm16 x"] by simp
  next
    case (Suc j)
    have "getUint16 (off + 2 + 2 * j)
            ((pre @ bytes16 (pcm16 x) True) @ concat (map (\<lambda>x. bytes16 (pcm16 x) True) xs))
          = pcm16 (xs ! j)"
      using Cons.prems Suc by (intro Cons.IH) simp_all
    then show ?thesis using Suc by (simp add: add.assoc)
  qed
qed

lemma clampSample_range: "- 1 \<le> clampSample x" "clampSample x \<le> 1"
  by (simp_all add: clampSample_def)

lemma scaleSample_range: "- 32768 \<le> scaleSample x" "scaleSample x \<le> 32767"
  using clampSample_range [of x] by (auto simp: scaleSample_def Let_def)

lemma trunc_bounds_neg:
  "v \<le> c \<Longrightarrow> c < v + 1 \<Longrightarrow> c \<le> 0 \<Longrightarrow> \<bar>c\<bar> \<le> \<bar>v\<bar> \<and> \<bar>v - c\<bar> < (1::real)"
  by linarith

lemma trunc_bounds_pos:
  "c \<le> v \<Longrightarrow> v < c + 1 \<Longrightarrow> 0 \<le> c \<Longrightarrow> \<bar>c\<bar> \<le> \<bar>v\<bar> \<and> \<bar>v - c\<bar> < (1::real)"
  by linarith

lemma toInteger_trunc:
  "\<bar>real_of_int (toInteger v)\<bar> \<le> \<bar>v\<bar> \<and> \<bar>v - real_of_int (toInteger v)\<bar> < 1"
proof (cases "v < 0")
  case True
  have t: "toInteger v = \<lceil>v\<rceil>" using True by (simp add: toInteger_def)
  have "\<lceil>v\<rceil> \<le> 0" using True by (simp add: ceiling_le_iff)
  then have "real_of_int \<lceil>v\<rceil> \<le> 0" by simp
  then show ?thesis unfolding t
    by (intro trunc_bounds_neg) linarith+
next
  case False
  have t: "toInteger v = \<lfloor>v\<rfloor>" using False by (simp add: toInteger_def)
  have "0 \<le> real_of_int \<lfloor>v\<rfloor>" using False by simp
  then show ?thesis unfolding t
    by (intro trunc_bounds_pos) linarith+
qed

lemma toInteger_scaleSample_range:
  "- 32768 \<le> toInteger (scaleSample x)" "toInteger (scaleSample x) \<le> 32767"
  using scaleSample_range [of x] by (auto simp: toInteger_def ceiling_le_iff le_floor_iff)

lemma sint_pcm16: "sint (pcm16 x) = toInteger (scaleSample x)"
  unfolding pcm16_def using toInteger_scaleSample_range [of x]
  by (simp add: sint_sbintrunc' signed_take_bit_int_eq_self)

lemma scaled_error:
  fixes c s k :: real
  assumes "\<bar>s * k - c\<bar> < 1" "0 < k"
  shows "\<bar>c / k - s\<bar> < 1 / k"
proof -
  have "c / k - s = (c - s * k) / k" using assms(2) by (simp add: field_simps)
  then have "\<bar>c / k - s\<bar> = \<bar>s * k - c\<bar> / k"
    using assms(2) by (simp add: abs_minus_commute)
  also have "\<dots> < 1 / k" using assms by (simp add: divide_strict_right_mono)
  finally show ?thesis .
qed

lemma dequantize_error:
  "\<bar>dequantize (toInteger (scaleSample x)) - clampSample x\<bar> < 1 / 32767"
proof (cases "clampSample x < 0")
  case True
  let ?v = "clampSample x * 32768"
  let ?t = "toInteger ?v"
  have v: "scaleSample x = ?v" using True by (simp add: scaleSample_def Let_def)
  have "?t = \<lceil>?v\<rceil>" using True by (simp add: toInteger_def)
  moreover have "\<lceil>?v\<rceil> \<le> 0" using True by (simp add: ceiling_le_iff)
  ultimately have "?t < 0 \<or> ?t = 0" by linarith
  then have e: "dequantize ?t = real_of_int ?t / 32768"
    by (auto simp: dequantize_def)
  have "\<bar>real_of_int ?t / 32768 - clampSample x\<bar> < 1 / 32768"
    using toInteger_trunc [of ?v] by (intro scaled_error) simp_all
  then have "\<bar>dequantize ?t - clampSample x\<bar> < 1 / 32768" by (simp only: e)
  also have "(1::real) / 32768 < 1 / 32767" by simp
  finally show ?thesis unfolding v .
next
  case False
  let ?v = "clampSample x * 32767"
  let ?t = "toInteger ?v"
  have v: "scaleSample x = ?v" using False by (simp add: scaleSample_def Let_def)
  have "?t = \<lfloor>?v\<rfloor>" using False by (simp add: toInteger_def)
  moreover have "0 \<le> \<lfloor>?v\<rfloor>" using False by simp
  ultimately have "\<not> ?t < 0" by linarith
  then have e: "dequantize ?t = real_of_int ?t / 32767"
    by (simp add: dequantize_def)
  have "\<bar>real_of_int ?t / 32767 - clampSample x\<bar> < 1 / 32767"
    using toInteger_trunc [of ?v] by (intro scaled_error) simp_all
  then show ?thesis unfolding v by (simp only: e)
qed

section \<open>Properties of the snapshot computation\<close>

lemma concat_replicate_replicate: "concat (replicate n (replicate m x)) = replicate (n * m) x"
  by (induction n) (simp_all add: replicate_add)

lemma totalSamplesOf_replicate:
  "totalSamplesOf (replicate n (replicate m x)) = int (n * m)"
  by (simp add: totalSamplesOf_concat concat_replicate_replicate)

lemma samplesToKeepOf_zero:
  assumes "0 \<le> rate" "0 \<le> tot"
  shows "samplesToKeepOf rate tot 0 = 0"
proof (cases "rate = 0")
  case True
  then show ?thesis by (simp add: samplesToKeepOf_def)
next
  case False
  have "0 \<le> fl64 (real_of_int tot / real_of_int rate)"
    using assms by (intro fl64_nonneg) simp
  then have "min 0 (fl64 (real_of_int tot / real_of_int rate)) = 0" by simp
  then show ?thesis using False by (simp add: samplesToKeepOf_def Let_def fl64_def)
qed

lemma samplesToKeepOf_negative:
  assumes "0 < rate" "0 \<le> tot" "d \<le> - (2 powi (- 1074))"
  shows "samplesToKeepOf rate tot d < 0"
proof -
  have dneg: "d < 0" using assms(3) by (smt (verit) zero_less_power_int)
  have "0 \<le> fl64 (real_of_int tot / real_of_int rate)"
    using assms by (intro fl64_nonneg) simp
  then have m: "min d (fl64 (real_of_int tot / real_of_int rate)) = d" using dneg by simp
  have "1 \<le> real_of_int rate" using assms(1) by simp
  then have "d * real_of_int rate \<le> d * 1" using dneg by (intro mult_left_mono_neg) simp_all
  then have "d * real_of_int rate \<le> d" by simp
  from this assms(3) have "d * real_of_int rate \<le> - (2 powi (- 1074))" by (rule order_trans)
  then have "fl64 (d * real_of_int rate) < 0" by (rule fl64_neg)
  then have "\<lfloor>fl64 (d * real_of_int rate)\<rfloor> < 0" by (simp add: floor_less_iff)
  then show ?thesis using assms(1) by (simp add: samplesToKeepOf_def Let_def m)
qed

text \<open>A count that covers the buffer returns every retained sample, oldest first.\<close>

lemma trimAudioBuffer_all:
  "totalSamplesOf bs \<le> k \<Longrightarrow> trimAudioBuffer bs k = Inr (concat bs)"
proof -
  assume k: "totalSamplesOf bs \<le> k"
  have "0 \<le> k" using k totalSamplesOf_nonneg [of bs] by linarith
  then have "trimAudioBuffer bs k = Inr (drop (length (concat bs) - nat k) (concat bs))"
    by (rule trimAudioBuffer_drop)
  moreover have "length (concat bs) - nat k = 0"
    using k by (simp add: totalSamplesOf_concat)
  ultimately show ?thesis by simp
qed

text \<open>
  The three sample counts that the scenarios below need, computed in double arithmetic:
  \<open>24000 / 16000\<close> is exact, while \<open>61440 / 44100\<close> and \<open>110592 / 48000\<close> round
  down and their products with the rate stay just below the integer.
\<close>

lemma samplesToKeepOf_scenario: "samplesToKeepOf 16000 24000 1 = 16000"
  by (simp add: samplesToKeepOf_def fl64_def floor_log2_def round_half_even_def bitlen.simps Let_def)

lemma samplesToKeepOf_44100: "samplesToKeepOf 44100 61440 5 = 61439"
  by (simp add: samplesToKeepOf_def fl64_def floor_log2_def round_half_even_def bitlen.simps Let_def)

lemma samplesToKeepOf_48000: "samplesToKeepOf 48000 110592 30 = 110591"
  by (simp add: samplesToKeepOf_def fl64_def floor_log2_def round_half_even_def bitlen.simps Let_def)

lemma pcm16_half: "pcm16 (1 / 2) = 16383"
  by (simp add: pcm16_def scaleSample_def clampSample_def toInteger_def Let_def)

lemma scenario_buffer:
  "audioBuffer (fold onaudioprocess
      [replicate 16000 (1 / 2), replicate 16000 (1 / 2), replicate 8000 (1 / 2)] (start 16000 2))
   = [replicate 16000 (1 / 2), replicate 8000 (1 / 2)]"
  by (simp add: onaudioprocess_def start_def Let_def)

lemma scenario_snapshot:
  "trimAudioBuffer [replicate 16000 (1 / 2), replicate 8000 (1 / 2)] 16000
     = Inr (replicate 16000 (1 / 2))"
proof -
  have "trimAudioBuffer [replicate 16000 (1 / 2), replicate 8000 (1 / 2)] 16000
     = Inr (drop (length (concat [replicate 16000 (1 / 2 :: real), replicate 8000 (1 / 2)]) - nat 16000)
         (concat [replicate 16000 (1 / 2), replicate 8000 (1 / 2)]))"
    by (rule trimAudioBuffer_drop) simp
  also have "drop (length (concat [replicate 16000 (1 / 2 :: real), replicate 8000 (1 / 2)]) - nat 16000)
         (concat [replicate 16000 (1 / 2), replicate 8000 (1 / 2)])
       = replicate 8000 (1 / 2) @ replicate 8000 (1 / 2)"
    by simp
  also have "\<dots> = replicate 16000 (1 / 2)"
    by (simp add: replicate_add [symmetric])
  finally show ?thesis .
qed

section \<open>Bytes, exact field values and failure of the snapshot\<close>

lemma low_byte: "(ucast (word_of_int k :: 16 word) :: 8 word) = word_of_int k"
  by (rule bit_word_eqI) (auto simp: bit_simps)

lemma high_byte:
  "(ucast (drop_bit 8 (word_of_int k :: 16 word)) :: 8 word) = word_of_int (k div 256)"
proof -
  have d: "k div 256 = drop_bit 8 k" by (simp add: drop_bit_eq_div)
  show ?thesis unfolding d
    by (rule bit_word_eqI) (auto simp: bit_simps)
qed

lemma bytes16_pcm16:
  "bytes16 (pcm16 x) True
     = [word_of_int (toInteger (scaleSample x)), word_of_int (toInteger (scaleSample x) div 256)]"
  by (simp add: bytes16_def pcm16_def low_byte high_byte)

lemma uint32_exact: "0 \<le> v \<Longrightarrow> v < 2 ^ 32 \<Longrightarrow> uint (word_of_int v :: 32 word) = v"
  by (simp add: uint_word_of_int take_bit_int_eq_self)

lemma header_field_fmt_length: "getUint32 16 (wavHeader n rate @ payload) = 16"
  by (simp add: wavHeader_def ascii_def bytes32_def bytes16_def getUint32_def
      word32_of_bytes del: of_int_add of_int_mult)

lemma length_payload:
  "length (concat (map (\<lambda>x. bytes16 (pcm16 x) True) xs)) = 2 * length xs"
  by (induction xs) simp_all

lemma payload_sample:
  "i < length xs \<Longrightarrow>
   getInt16 (44 + 2 * i) (wavHeader n rate @ concat (map (\<lambda>x. bytes16 (pcm16 x) True) xs))
     = toInteger (scaleSample (xs ! i))"
  using payload_word [of i xs "wavHeader n rate" 44]
  by (simp add: getInt16_def sint_pcm16)

lemma dequantize_error_neg:
  assumes "clampSample x < 0"
  shows "\<bar>dequantize (toInteger (scaleSample x)) - clampSample x\<bar> < 1 / 32768"
proof -
  let ?v = "clampSample x * 32768"
  let ?t = "toInteger ?v"
  have v: "scaleSample x = ?v" using assms by (simp add: scaleSample_def Let_def)
  have "?t = \<lceil>?v\<rceil>" using assms by (simp add: toInteger_def)
  moreover have "\<lceil>?v\<rceil> \<le> 0" using assms by (simp add: ceiling_le_iff)
  ultimately have "?t < 0 \<or> ?t = 0" by linarith
  then have e: "dequantize ?t = real_of_int ?t / 32768"
    by (auto simp: dequantize_def)
  have "\<bar>real_of_int ?t / 32768 - clampSample x\<bar> < 1 / 32768"
    using toInteger_trunc [of ?v] by (intro scaled_error) simp_all
  then show ?thesis unfolding v by (simp only: e)
qed

lemma dequantize_error_nonneg:
  assumes "0 \<le> clampSample x"
  shows "\<bar>dequantize (toInteger (scaleSample x)) - clampSample x\<bar> < 1 / 32767"
  using dequantize_error [of x] .

lemma fl64_nonpos: "x \<le> 0 \<Longrightarrow> fl64 x \<le> 0"
proof -
  assume x: "x \<le> 0"
  show ?thesis
  proof (cases "x = 0")
    case True
    then show ?thesis by (simp add: fl64_def)
  next
    case False
    define e where "e = max (floor_log2 \<bar>x\<bar> - 52) (- 1074)"
    define m where "m = real_of_int (round_half_even (\<bar>x\<bar> / 2 powi e))"
    have "0 \<le> \<bar>x\<bar> / 2 powi e" by simp
    then have "0 \<le> \<lfloor>\<bar>x\<bar> / 2 powi e\<rfloor>" by simp
    then have "0 \<le> round_half_even (\<bar>x\<bar> / 2 powi e)"
      using round_half_even_ge [of "\<bar>x\<bar> / 2 powi e"] by linarith
    then have m: "0 \<le> m" by (simp add: m_def)
    have "fl64 x = sgn x * m * 2 powi e"
      using False unfolding fl64_def Let_def e_def m_def by simp
    also have "\<dots> = - (m * 2 powi e)" using x False by simp
    also have "\<dots> \<le> 0" using m by simp
    finally show ?thesis .
  qed
qed

lemma samplesToKeepOf_nonneg:
  assumes "0 \<le> tot" "rate \<le> 0 \<or> 0 \<le> d"
  shows "0 \<le> samplesToKeepOf rate tot d"
proof (cases "rate = 0")
  case True
  then show ?thesis by (simp add: samplesToKeepOf_def)
next
  case False
  let ?a = "fl64 (real_of_int tot / real_of_int rate)"
  have "0 \<le> min d ?a * real_of_int rate"
  proof (cases "0 < rate")
    case True
    then have "0 \<le> d" using assms(2) by simp
    moreover have "0 \<le> ?a" using assms(1) True by (intro fl64_nonneg) simp
    ultimately have "0 \<le> min d ?a" by simp
    then show ?thesis using True by simp
  next
    case neg: False
    then have r: "rate < 0" using False by simp
    then have "real_of_int tot / real_of_int rate \<le> 0"
      using assms(1) by (simp add: divide_nonneg_neg)
    then have "?a \<le> 0" by (rule fl64_nonpos)
    then have "min d ?a \<le> 0" by simp
    then show ?thesis using r by (simp add: mult_nonpos_nonpos)
  qed
  then have "0 \<le> fl64 (min d ?a * real_of_int rate)" by (rule fl64_nonneg)
  then have "0 \<le> \<lfloor>fl64 (min d ?a * real_of_int rate)\<rfloor>" by simp
  then show ?thesis using False by (simp add: samplesToKeepOf_def Let_def)
qed

lemma trimmedAudioData_fails:
  assumes "trimmedAudioData s d = Inl e"
  shows "0 < sampleRate s \<and> d < 0"
proof (rule ccontr)
  assume "\<not> (0 < sampleRate s \<and> d < 0)"
  then have "sampleRate s \<le> 0 \<or> 0 \<le> d" by linarith
  then have "0 \<le> samplesToKeepOf (sampleRate s) (totalSamplesOf (audioBuffer s)) d"
    by (intro samplesToKeepOf_nonneg totalSamplesOf_nonneg)
  then have "\<exists>ys. trimmedAudioData s d = Inr ys"
    unfolding trimmedAudioData_def using trimAudioBuffer_drop by blast
  then show False using assms by auto
qed

section \<open>The claims\<close>

subsection \<open>Eviction\<close>

text \<open>
  C10. The eviction loop never removes the last remaining chunk: after any append the
  chunk array is not empty and ends with the chunk just pushed. When that chunk alone is
  longer than \<open>sampleRate * bufferLimitSeconds\<close> it is kept in full and is the only chunk
  left, so the retained sample count is then strictly above the ceiling.
\<close>

theorem eviction_keeps_newest_chunk:
  "audioBuffer (onaudioprocess c s) \<noteq> []
   \<and> last (audioBuffer (onaudioprocess c s)) = c
   \<and> (sampleRate s * bufferLimitSeconds s < int (length c) \<longrightarrow>
        audioBuffer (onaudioprocess c s) = [c]
        \<and> sampleRate s * bufferLimitSeconds s < totalSamplesOf (audioBuffer (onaudioprocess c s)))"
proof -
  let ?m = "sampleRate s * bufferLimitSeconds s"
  let ?p = "audioBuffer s @ [c]"
  have ab: "audioBuffer (onaudioprocess c s) = evict ?m (totalSamplesOf ?p) ?p"
    by (rule audioBuffer_onaudioprocess)
  have ne: "?p \<noteq> []" by simp
  have 1: "audioBuffer (onaudioprocess c s) \<noteq> []"
    unfolding ab by (rule evict_nonempty [OF ne])
  have 2: "last (audioBuffer (onaudioprocess c s)) = c"
    unfolding ab using evict_last [OF ne, of ?m "totalSamplesOf ?p"] by simp
  have 3: "audioBuffer (onaudioprocess c s) = [c]" if "?m < int (length c)"
    unfolding ab using evict_big_last [OF ne refl, of ?m] that by simp
  show ?thesis using 1 2 3 by simp
qed

theorem eviction_keeps_newest_chunk_witness:
  "sampleRate (start 1 2) * bufferLimitSeconds (start 1 2) < int (length [0, 0, 0 :: real])
   \<and> audioBuffer (onaudioprocess [0, 0, 0] (start 1 2)) = [[0, 0, 0]]
   \<and> totalSamplesOf (audioBuffer (onaudioprocess [0, 0, 0] (start 1 2))) = 3"
  using eviction_keeps_newest_chunk [of "[0, 0, 0]" "start 1 2"]
  by (simp add: start_def)

text \<open>
  C2, as stated, fails: a single chunk of three samples under a ceiling of two samples
  stays in the buffer, and after chunks of 2, 2 and 1 samples under a ceiling of 4 the
  buffer holds 3 samples, not \<open>min 4 5\<close>.
\<close>

theorem ceiling_counterexample:
  "\<not> totalSamplesOf (audioBuffer (fold onaudioprocess [[0, 0, 0]] (start 1 2))) \<le> 1 * 2
   \<and> totalSamplesOf (audioBuffer (fold onaudioprocess [[0, 0], [0, 0], [0]] (start 1 4)))
       \<noteq> min (1 * 4) (totalSamplesOf [[0, 0], [0, 0], [0]])"
  by (simp add: onaudioprocess_def start_def Let_def)

text \<open>
  C2, amended. After every sequence of appends to a fresh session the retained chunks are
  a suffix of the chunks appended, ending with the newest chunk; eviction removes whole
  chunks and stops as soon as the count is within the ceiling, so the oldest chunk dropped
  would not have fitted. The retained count is at most the ceiling unless a single chunk
  is left, and it is the minimum of ceiling and total appended whenever the total appended
  is within the ceiling.
\<close>

theorem retained_after_appends:
  "let retained = audioBuffer (fold onaudioprocess cs (start rate limit));
       ceiling = rate * limit
   in (\<exists>dropped. cs = dropped @ retained
         \<and> (dropped = [] \<or> ceiling < totalSamplesOf (last dropped # retained)))
      \<and> (length retained \<le> 1 \<or> totalSamplesOf retained \<le> ceiling)
      \<and> (cs = [] \<or> last retained = last cs)
      \<and> (ceiling < totalSamplesOf cs
           \<or> totalSamplesOf retained = min ceiling (totalSamplesOf cs))"
proof -
  let ?r = "audioBuffer (fold onaudioprocess cs (start rate limit))"
  obtain d where d: "evicted_ok (rate * limit) cs d ?r"
    using fold_invariant by blast
  then have a: "\<exists>dropped. cs = dropped @ ?r
         \<and> (dropped = [] \<or> rate * limit < totalSamplesOf (last dropped # ?r))"
    and b: "length ?r \<le> 1 \<or> totalSamplesOf ?r \<le> rate * limit"
    unfolding evicted_ok_def by blast+
  have c: "cs = [] \<or> last ?r = last cs"
  proof (cases cs rule: rev_cases)
    case Nil
    then show ?thesis by simp
  next
    case (snoc init x)
    have "last (audioBuffer (onaudioprocess x (fold onaudioprocess init (start rate limit)))) = x"
      unfolding audioBuffer_onaudioprocess by (subst evict_last) simp_all
    then show ?thesis using snoc by simp
  qed
  have e: "rate * limit < totalSamplesOf cs \<or> totalSamplesOf ?r = min (rate * limit) (totalSamplesOf cs)"
  proof (cases "rate * limit < totalSamplesOf cs")
    case True
    then show ?thesis by simp
  next
    case False
    then have "?r = cs" by (intro fold_keeps_all) simp
    then show ?thesis using False by simp
  qed
  show ?thesis unfolding Let_def using a b c e by blast
qed

theorem retained_after_appends_witness:
  "let retained = audioBuffer (fold onaudioprocess [[0, 0], [0, 0], [0]] (start 1 4))
   in retained = [[0, 0], [0]] \<and> [[0, 0], [0, 0], [0]] = [[0, 0]] @ retained
      \<and> 1 * 4 < totalSamplesOf ([0, 0] # retained) \<and> totalSamplesOf retained \<le> 1 * 4
      \<and> last retained = [0]"
  using retained_after_appends [of "[[0, 0], [0, 0], [0]]" 1 4]
  by (simp add: onaudioprocess_def start_def Let_def)

subsection \<open>Encoding\<close>

text \<open>
  C4, as stated, fails where a value does not fit its 32-bit field. At the positive sample
  rate \<open>2 ^ 31\<close> the byte-rate field is 0, not \<open>rate * 2\<close>; for \<open>2 ^ 31 - 18\<close>
  samples the size field is 0, not \<open>36 + 2 * length\<close>.
\<close>

theorem wav_layout_counterexample:
  "(\<exists>bytes. createWavBlob [] 2147483648 = Inr bytes
      \<and> getUint32 28 bytes = 0
      \<and> uint (getUint32 28 bytes) \<noteq> 2147483648 * 2)
   \<and> (\<exists>bytes. createWavBlob (replicate 2147483630 0) 1 = Inr bytes
      \<and> getUint32 4 bytes = 0
      \<and> uint (getUint32 4 bytes) \<noteq> 36 + 2147483630 * 2)"
proof (rule conjI)
  have a: "createWavBlob [] 2147483648 = Inr (wavHeader 0 2147483648)"
    using createWavBlob_layout [of "[]" 2147483648] by simp
  have b: "getUint32 28 (wavHeader 0 2147483648) = 0"
    using header_fields(5) [of 0 2147483648 "[]"] by simp
  show "\<exists>bytes. createWavBlob [] 2147483648 = Inr bytes
      \<and> getUint32 28 bytes = 0
      \<and> uint (getUint32 28 bytes) \<noteq> 2147483648 * 2"
    by (rule exI [of _ "wavHeader 0 2147483648"]) (simp add: a b)
next
  let ?xs = "replicate 2147483630 (0::real)"
  let ?p = "concat (map (\<lambda>x. bytes16 (pcm16 x) True) ?xs)"
  have c: "createWavBlob ?xs 1 = Inr (wavHeader (length ?xs) 1 @ ?p)"
    by (rule createWavBlob_layout)
  have "getUint32 4 (wavHeader (length ?xs) 1 @ ?p) = word_of_int (36 + int (length ?xs) * 2)"
    by (rule header_fields)
  then have d: "getUint32 4 (wavHeader (length ?xs) 1 @ ?p) = 0" by simp
  show "\<exists>bytes. createWavBlob (replicate 2147483630 0) 1 = Inr bytes
      \<and> getUint32 4 bytes = 0
      \<and> uint (getUint32 4 bytes) \<noteq> 36 + 2147483630 * 2"
    by (rule exI [of _ "wavHeader (length ?xs) 1 @ ?p"]) (simp only: c d, simp)
qed

text \<open>
  C4, amended. For every sample sequence and every positive sample rate below \<open>2 ^ 31\<close>
  with \<open>36 + 2 * length\<close> below \<open>2 ^ 32\<close>, the encoder returns, without error, a
  44-byte header followed by the payload. The header is byte for byte: \<open>RIFF\<close>, the
  32-bit little-endian total size minus 8 (that is \<open>36 + 2 * length\<close>), \<open>WAVE\<close>; the
  format sub-chunk with tag \<open>fmt \<close>, length 16, format code 1, channel count 1, the
  sample rate passed in, byte rate \<open>rate * 2\<close>, block align 2, bits per sample 16;
  the data sub-chunk with tag \<open>data\<close> and length \<open>length * 2\<close>. Every field, read
  back low byte first, has exactly that value. The payload is one little-endian signed
  16-bit word per sample, in order.
\<close>

theorem wav_layout:
  "(0 < rate \<and> rate < 2 ^ 31 \<and> 36 + int (length audioData) * 2 < 2 ^ 32 \<longrightarrow>
     (\<exists>bytes. createWavBlob audioData rate = Inr bytes
        \<and> bytes =
            ascii ''RIFF'' @ bytes32 (word_of_int (36 + int (length audioData) * 2)) True
            @ ascii ''WAVE''
            @ ascii ''fmt '' @ bytes32 16 True @ bytes16 1 True @ bytes16 1 True
            @ bytes32 (word_of_int rate) True @ bytes32 (word_of_int (rate * 2)) True
            @ bytes16 2 True @ bytes16 16 True
            @ ascii ''data'' @ bytes32 (word_of_int (int (length audioData) * 2)) True
            @ concat (map (\<lambda>x. bytes16 (pcm16 x) True) audioData)
        \<and> length bytes = 44 + 2 * length audioData
        \<and> uint (getUint32 4 bytes) = 36 + int (length audioData) * 2
        \<and> uint (getUint32 16 bytes) = 16
        \<and> uint (getUint16 20 bytes) = 1
        \<and> uint (getUint16 22 bytes) = 1
        \<and> uint (getUint32 24 bytes) = rate
        \<and> uint (getUint32 28 bytes) = rate * 2
        \<and> uint (getUint16 32 bytes) = 2
        \<and> uint (getUint16 34 bytes) = 16
        \<and> uint (getUint32 40 bytes) = int (length audioData) * 2
        \<and> (\<forall>i < length audioData.
              getInt16 (44 + 2 * i) bytes = toInteger (scaleSample (audioData ! i)))))
   \<and> ascii ''RIFF'' = [0x52, 0x49, 0x46, 0x46] \<and> ascii ''WAVE'' = [0x57, 0x41, 0x56, 0x45]
   \<and> ascii ''fmt '' = [0x66, 0x6D, 0x74, 0x20] \<and> ascii ''data'' = [0x64, 0x61, 0x74, 0x61]
   \<and> bytes32 w True = [ucast w, ucast (drop_bit 8 w), ucast (drop_bit 16 w), ucast (drop_bit 24 w)]
   \<and> bytes16 v True = [ucast v, ucast (drop_bit 8 v)]"
proof -
  let ?n = "length audioData"
  let ?payload = "concat (map (\<lambda>x. bytes16 (pcm16 x) True) audioData)"
  let ?bytes = "wavHeader ?n rate @ ?payload"
  have enc: "createWavBlob audioData rate = Inr ?bytes" by (rule createWavBlob_layout)
  have expl: "?bytes =
            ascii ''RIFF'' @ bytes32 (word_of_int (36 + int ?n * 2)) True
            @ ascii ''WAVE''
            @ ascii ''fmt '' @ bytes32 16 True @ bytes16 1 True @ bytes16 1 True
            @ bytes32 (word_of_int rate) True @ bytes32 (word_of_int (rate * 2)) True
            @ bytes16 2 True @ bytes16 16 True
            @ ascii ''data'' @ bytes32 (word_of_int (int ?n * 2)) True
            @ ?payload"
    by (simp add: wavHeader_def)
  have len: "length ?bytes = 44 + 2 * ?n" by (simp add: length_payload)
  have smp: "\<forall>i < ?n. getInt16 (44 + 2 * i) ?bytes = toInteger (scaleSample (audioData ! i))"
    by (simp add: payload_sample)
  note hf = header_fields [of ?n rate ?payload] header_field_fmt_length [of ?n rate ?payload]
  have small: "uint (getUint32 16 ?bytes) = 16" "uint (getUint16 20 ?bytes) = 1"
    "uint (getUint16 22 ?bytes) = 1" "uint (getUint16 32 ?bytes) = 2"
    "uint (getUint16 34 ?bytes) = 16"
    by (simp_all only: hf) simp_all
  have big: "uint (getUint32 4 ?bytes) = 36 + int ?n * 2"
      "uint (getUint32 24 ?bytes) = rate"
      "uint (getUint32 28 ?bytes) = rate * 2"
      "uint (getUint32 40 ?bytes) = int ?n * 2"
    if "0 < rate" "rate < 2 ^ 31" "36 + int ?n * 2 < 2 ^ 32"
  proof -
    show "uint (getUint32 4 ?bytes) = 36 + int ?n * 2"
      unfolding hf using that by (intro uint32_exact) simp_all
    show "uint (getUint32 24 ?bytes) = rate"
      unfolding hf using that by (intro uint32_exact) simp_all
    show "uint (getUint32 28 ?bytes) = rate * 2"
      unfolding hf using that by (intro uint32_exact) simp_all
    show "uint (getUint32 40 ?bytes) = int ?n * 2"
      unfolding hf using that by (intro uint32_exact) simp_all
  qed
  have main: "\<exists>bytes. createWavBlob audioData rate = Inr bytes
        \<and> bytes =
            ascii ''RIFF'' @ bytes32 (word_of_int (36 + int ?n * 2)) True
            @ ascii ''WAVE''
            @ ascii ''fmt '' @ bytes32 16 True @ bytes16 1 True @ bytes16 1 True
            @ bytes32 (word_of_int rate) True @ bytes32 (word_of_int (rate * 2)) True
            @ bytes16 2 True @ bytes16 16 True
            @ ascii ''data'' @ bytes32 (word_of_int (int ?n * 2)) True
            @ ?payload
        \<and> length bytes = 44 + 2 * ?n
        \<and> uint (getUint32 4 bytes) = 36 + int ?n * 2
        \<and> uint (getUint32 16 bytes) = 16
        \<and> uint (getUint16 20 bytes) = 1
        \<and> uint (getUint16 22 bytes) = 1
        \<and> uint (getUint32 24 bytes) = rate
        \<and> uint (getUint32 28 bytes) = rate * 2
        \<and> uint (getUint16 32 bytes) = 2
        \<and> uint (getUint16 34 bytes) = 16
        \<and> uint (getUint32 40 bytes) = int ?n * 2
        \<and> (\<forall>i < ?n. getInt16 (44 + 2 * i) bytes = toInteger (scaleSample (audioData ! i)))"
    if h: "0 < rate" "rate < 2 ^ 31" "36 + int ?n * 2 < 2 ^ 32"
    by (rule exI [of _ ?bytes]) (intro conjI enc expl len small big [OF h] smp)
  have pins: "ascii ''RIFF'' = [0x52, 0x49, 0x46, 0x46]" "ascii ''WAVE'' = [0x57, 0x41, 0x56, 0x45]"
    "ascii ''fmt '' = [0x66, 0x6D, 0x74, 0x20]" "ascii ''data'' = [0x64, 0x61, 0x74, 0x61]"
    "bytes32 w True = [ucast w, ucast (drop_bit 8 w), ucast (drop_bit 16 w), ucast (drop_bit 24 w)]"
    "bytes16 v True = [ucast v, ucast (drop_bit 8 v)]"
    by (simp_all add: ascii_def bytes32_def bytes16_def)
  show ?thesis
    by (intro conjI impI pins) (elim conjE, rule main)
qed

theorem wav_layout_witness:
  "(0::int) < 16000 \<and> (16000::int) < 2 ^ 31 \<and> 36 + int (length [1 / 2 :: real]) * 2 < 2 ^ 32
   \<and> (\<exists>bytes. createWavBlob [1 / 2] 16000 = Inr bytes
         \<and> length bytes = 46
         \<and> uint (getUint32 4 bytes) = 38
         \<and> uint (getUint32 24 bytes) = 16000
         \<and> uint (getUint32 28 bytes) = 32000
         \<and> uint (getUint32 40 bytes) = 2
         \<and> getInt16 44 bytes = 16383)"
proof -
  have t: "toInteger (scaleSample ([1 / 2] ! 0)) = 16383"
    by (simp add: scaleSample_def clampSample_def toInteger_def Let_def)
  have h: "(0::int) < 16000 \<and> (16000::int) < 2 ^ 31 \<and> 36 + int (length [1 / 2 :: real]) * 2 < 2 ^ 32"
    by simp
  from wav_layout [of 16000 "[1 / 2]"] h
  obtain bytes where b: "createWavBlob [1 / 2] 16000 = Inr bytes"
    "length bytes = 44 + 2 * length [1 / 2 :: real]"
    "uint (getUint32 4 bytes) = 36 + int (length [1 / 2 :: real]) * 2"
    "uint (getUint32 24 bytes) = 16000" "uint (getUint32 28 bytes) = 16000 * 2"
    "uint (getUint32 40 bytes) = int (length [1 / 2 :: real]) * 2"
    "\<forall>i < length [1 / 2 :: real]. getInt16 (44 + 2 * i) bytes = toInteger (scaleSample ([1 / 2] ! i))"
    by blast
  from b(7) have "getInt16 (44 + 2 * 0) bytes = toInteger (scaleSample ([1 / 2] ! 0))" by simp
  then have "getInt16 44 bytes = 16383" unfolding t by simp
  then show ?thesis using b(1-6) by simp
qed

text \<open>
  C8. Encoding no samples is not an error: the result is exactly the 44 header bytes, with
  a size field of 36, a data length of 0 and nothing after the header.
\<close>

theorem empty_encode:
  "createWavBlob [] rate =
     Inr (ascii ''RIFF'' @ [36, 0, 0, 0] @ ascii ''WAVE''
          @ ascii ''fmt '' @ [16, 0, 0, 0] @ [1, 0] @ [1, 0]
          @ bytes32 (word_of_int rate) True @ bytes32 (word_of_int (rate * 2)) True
          @ [2, 0] @ [16, 0]
          @ ascii ''data'' @ [0, 0, 0, 0])
   \<and> (\<exists>bytes. createWavBlob [] rate = Inr bytes \<and> length bytes = 44
         \<and> getUint32 40 bytes = 0)"
proof -
  have l: "createWavBlob [] rate = Inr (wavHeader 0 rate)"
    using createWavBlob_layout [of "[]" rate] by simp
  have h: "wavHeader 0 rate = ascii ''RIFF'' @ [36, 0, 0, 0] @ ascii ''WAVE''
          @ ascii ''fmt '' @ [16, 0, 0, 0] @ [1, 0] @ [1, 0]
          @ bytes32 (word_of_int rate) True @ bytes32 (word_of_int (rate * 2)) True
          @ [2, 0] @ [16, 0]
          @ ascii ''data'' @ [0, 0, 0, 0]"
    by (simp add: wavHeader_def bytes32_def bytes16_def)
  have g: "getUint32 40 (wavHeader 0 rate) = 0"
    using header_fields(8) [of 0 rate "[]"] by simp
  have "length (wavHeader 0 rate) = 44" by (rule length_wavHeader)
  then show ?thesis unfolding h [symmetric] using l g by simp
qed

text \<open>
  C3. Every sample is clamped to the closed range from \<open>- 1\<close> to \<open>1\<close>; a negative
  clamped value is multiplied by 32768, any other by 32767; the product is truncated
  towards zero, and the signed value of the 16-bit word stored for the sample is exactly
  that integer. The encoder never fails, whatever the sample values. Its payload is, for
  each sample in order, the two bytes of that integer, low byte first (the integer and
  the integer divided by 256, each modulo 256), and every payload word read back as a
  signed 16-bit integer is that integer.
\<close>

theorem quantization_rule:
  "clampSample x = (if x < - 1 then - 1 else if 1 < x then 1 else x)
   \<and> - 1 \<le> clampSample x \<and> clampSample x \<le> 1
   \<and> scaleSample x = (if clampSample x < 0 then clampSample x * 32768 else clampSample x * 32767)
   \<and> sint (pcm16 x) = toInteger (scaleSample x)
   \<and> \<bar>real_of_int (toInteger (scaleSample x))\<bar> \<le> \<bar>scaleSample x\<bar>
   \<and> \<bar>scaleSample x - real_of_int (toInteger (scaleSample x))\<bar> < 1
   \<and> (\<exists>header. length header = 44
         \<and> createWavBlob xs rate
             = Inr (header @ concat (map (\<lambda>x. [word_of_int (toInteger (scaleSample x)),
                                                word_of_int (toInteger (scaleSample x) div 256)]) xs)))
   \<and> (\<exists>bytes. createWavBlob xs rate = Inr bytes
         \<and> length bytes = 44 + 2 * length xs
         \<and> (\<forall>i < length xs. getInt16 (44 + 2 * i) bytes = toInteger (scaleSample (xs ! i))))"
proof -
  let ?payload = "concat (map (\<lambda>x. bytes16 (pcm16 x) True) xs)"
  let ?bytes = "wavHeader (length xs) rate @ ?payload"
  have 1: "clampSample x = (if x < - 1 then - 1 else if 1 < x then 1 else x)"
    by (simp add: clampSample_def)
  have 2: "scaleSample x = (if clampSample x < 0 then clampSample x * 32768 else clampSample x * 32767)"
    by (simp add: scaleSample_def Let_def)
  have enc: "createWavBlob xs rate = Inr ?bytes" by (rule createWavBlob_layout)
  have "?payload = concat (map (\<lambda>x. [word_of_int (toInteger (scaleSample x)),
                                       word_of_int (toInteger (scaleSample x) div 256)]) xs)"
    by (simp only: bytes16_pcm16)
  then have 3: "\<exists>header. length header = 44
         \<and> createWavBlob xs rate
             = Inr (header @ concat (map (\<lambda>x. [word_of_int (toInteger (scaleSample x)),
                                                word_of_int (toInteger (scaleSample x) div 256)]) xs))"
    using enc length_wavHeader by metis
  have len: "length ?bytes = 44 + 2 * length xs" by (simp add: length_payload)
  have "\<forall>i < length xs. getInt16 (44 + 2 * i) ?bytes = toInteger (scaleSample (xs ! i))"
    by (simp add: payload_sample)
  then have 4: "\<exists>bytes. createWavBlob xs rate = Inr bytes
         \<and> length bytes = 44 + 2 * length xs
         \<and> (\<forall>i < length xs. getInt16 (44 + 2 * i) bytes = toInteger (scaleSample (xs ! i)))"
    using enc len by blast
  show ?thesis
    using 1 2 3 4 clampSample_range [of x] sint_pcm16 [of x] toInteger_trunc [of "scaleSample x"]
    by blast
qed

theorem quantization_rule_witness:
  "\<exists>bytes. createWavBlob [1 / 2, - 1 / 4] 16000 = Inr bytes
     \<and> (1::nat) < length [1 / 2, - 1 / 4 :: real]
     \<and> getInt16 (44 + 2 * 1) bytes = - 8192
     \<and> toInteger (scaleSample ([1 / 2, - 1 / 4] ! 1)) = - 8192"
proof -
  have "toInteger (scaleSample ([1 / 2, - 1 / 4] ! 1)) = - 8192"
    by (simp add: scaleSample_def clampSample_def toInteger_def Let_def)
  then show ?thesis
    using quantization_rule [of 0 "[1 / 2, - 1 / 4]" 16000] by auto
qed

text \<open>
  C7, as stated, fails. The sample \<open>65537 / 2 ^ 31\<close>, a \<open>Float32Array\<close> value just
  above \<open>1 / 32768\<close>, is stored as the word 0, which decodes to 0, further than
  \<open>1 / 32768\<close> from the sample. And a value that does not fit its 32-bit field is not
  matched: at sample rate \<open>2 ^ 32\<close> the rate field is 0, at sample rate \<open>- 1\<close>
  it is not negative, and for \<open>2 ^ 31 - 18\<close> samples the size field is 0.
\<close>

theorem roundtrip_counterexample:
  "(\<exists>bytes. createWavBlob [65537 / 2147483648] 16000 = Inr bytes
      \<and> getInt16 44 bytes = 0
      \<and> 1 / 32768 < \<bar>dequantize (getInt16 44 bytes) - clampSample (65537 / 2147483648)\<bar>)
   \<and> (\<exists>bytes. createWavBlob [] 4294967296 = Inr bytes
      \<and> uint (getUint32 24 bytes) \<noteq> 4294967296)
   \<and> (\<exists>bytes. createWavBlob [] (- 1) = Inr bytes
      \<and> uint (getUint32 24 bytes) \<noteq> - 1)
   \<and> (\<exists>bytes. createWavBlob (replicate 2147483630 0) 1 = Inr bytes
      \<and> uint (getUint32 4 bytes) \<noteq> 36 + 2147483630 * 2)"
proof (intro conjI)
  let ?x = "65537 / 2147483648 :: real"
  have s: "scaleSample ?x = 65537 * 32767 / 2147483648"
    by (simp add: scaleSample_def clampSample_def Let_def)
  have p: "pcm16 ?x = 0"
    unfolding pcm16_def s by (simp add: toInteger_def)
  have "getUint16 (44 + 2 * 0) (wavHeader 1 16000 @ concat (map (\<lambda>x. bytes16 (pcm16 x) True) [?x]))
      = pcm16 ([?x] ! 0)"
    by (rule payload_word) simp_all
  then have g: "getInt16 44 (wavHeader 1 16000 @ concat (map (\<lambda>x. bytes16 (pcm16 x) True) [?x])) = 0"
    by (simp add: getInt16_def p)
  have c: "clampSample ?x = ?x" by (simp add: clampSample_def)
  show "\<exists>bytes. createWavBlob [?x] 16000 = Inr bytes
      \<and> getInt16 44 bytes = 0
      \<and> 1 / 32768 < \<bar>dequantize (getInt16 44 bytes) - clampSample ?x\<bar>"
    using createWavBlob_layout [of "[?x]" 16000] g
    by (simp add: dequantize_def c)
next
  have a: "createWavBlob [] 4294967296 = Inr (wavHeader 0 4294967296)"
    using createWavBlob_layout [of "[]" 4294967296] by simp
  have b: "getUint32 24 (wavHeader 0 4294967296) = 0"
    using header_fields(4) [of 0 4294967296 "[]"] by simp
  show "\<exists>bytes. createWavBlob [] 4294967296 = Inr bytes
      \<and> uint (getUint32 24 bytes) \<noteq> 4294967296"
    by (rule exI [of _ "wavHeader 0 4294967296"]) (simp add: a b)
next
  have a: "createWavBlob [] (- 1) = Inr (wavHeader 0 (- 1))"
    using createWavBlob_layout [of "[]" "- 1"] by simp
  have "0 \<le> uint (getUint32 24 (wavHeader 0 (- 1)))" by simp
  then have "uint (getUint32 24 (wavHeader 0 (- 1))) \<noteq> - 1" by linarith
  then show "\<exists>bytes. createWavBlob [] (- 1) = Inr bytes
      \<and> uint (getUint32 24 bytes) \<noteq> - 1"
    using a by blast
next
  let ?xs = "replicate 2147483630 (0::real)"
  let ?p = "concat (map (\<lambda>x. bytes16 (pcm16 x) True) ?xs)"
  have c: "createWavBlob ?xs 1 = Inr (wavHeader (length ?xs) 1 @ ?p)"
    by (rule createWavBlob_layout)
  have "getUint32 4 (wavHeader (length ?xs) 1 @ ?p) = word_of_int (36 + int (length ?xs) * 2)"
    by (rule header_fields)
  then have d: "getUint32 4 (wavHeader (length ?xs) 1 @ ?p) = 0" by simp
  show "\<exists>bytes. createWavBlob (replicate 2147483630 0) 1 = Inr bytes
      \<and> uint (getUint32 4 bytes) \<noteq> 36 + 2147483630 * 2"
    by (rule exI [of _ "wavHeader (length ?xs) 1 @ ?p"]) (simp only: c d, simp)
qed

text \<open>
  C7, amended. For every sample sequence and every sample rate from 0 to below
  \<open>2 ^ 32\<close> with \<open>36 + 2 * length\<close> below \<open>2 ^ 32\<close>, the header fields of the encoder's output
  (sizes, format code, channel count, sample rate, bit depth) exactly match the values
  derivable from the inputs. For every sample sequence and sample rate, decoding a payload
  word through the inverse of the quantisation formula reconstructs the clamped input
  sample to within less than \<open>1 / 32768\<close> when the clamped sample is negative, and to
  within less than \<open>1 / 32767\<close> when it is zero or positive.
\<close>

theorem roundtrip:
  "\<exists>bytes. createWavBlob xs rate = Inr bytes
     \<and> length bytes = 44 + 2 * length xs
     \<and> (0 \<le> rate \<and> rate < 2 ^ 32 \<and> 36 + int (length xs) * 2 < 2 ^ 32 \<longrightarrow>
          uint (getUint32 4 bytes) = 36 + int (length xs) * 2
          \<and> uint (getUint16 20 bytes) = 1
          \<and> uint (getUint16 22 bytes) = 1
          \<and> uint (getUint32 24 bytes) = rate
          \<and> uint (getUint16 34 bytes) = 16
          \<and> uint (getUint32 40 bytes) = int (length xs) * 2)
     \<and> (\<forall>i < length xs.
           getInt16 (44 + 2 * i) bytes = toInteger (scaleSample (xs ! i))
           \<and> (clampSample (xs ! i) < 0 \<longrightarrow>
                \<bar>dequantize (getInt16 (44 + 2 * i) bytes) - clampSample (xs ! i)\<bar> < 1 / 32768)
           \<and> (0 \<le> clampSample (xs ! i) \<longrightarrow>
                \<bar>dequantize (getInt16 (44 + 2 * i) bytes) - clampSample (xs ! i)\<bar> < 1 / 32767))"
proof -
  let ?n = "length xs"
  let ?payload = "concat (map (\<lambda>x. bytes16 (pcm16 x) True) xs)"
  let ?bytes = "wavHeader ?n rate @ ?payload"
  have a: "createWavBlob xs rate = Inr ?bytes" by (rule createWavBlob_layout)
  have L: "length ?bytes = 44 + 2 * ?n" by (simp add: length_payload)
  note hf = header_fields [of ?n rate ?payload]
  have H: "0 \<le> rate \<and> rate < 2 ^ 32 \<and> 36 + int ?n * 2 < 2 ^ 32 \<longrightarrow>
          uint (getUint32 4 ?bytes) = 36 + int ?n * 2
          \<and> uint (getUint16 20 ?bytes) = 1
          \<and> uint (getUint16 22 ?bytes) = 1
          \<and> uint (getUint32 24 ?bytes) = rate
          \<and> uint (getUint16 34 ?bytes) = 16
          \<and> uint (getUint32 40 ?bytes) = int ?n * 2"
  proof (intro impI conjI; elim conjE)
    assume h: "0 \<le> rate" "rate < 2 ^ 32" "36 + int ?n * 2 < 2 ^ 32"
    show "uint (getUint32 4 ?bytes) = 36 + int ?n * 2"
      unfolding hf using h by (intro uint32_exact) simp_all
    show "uint (getUint32 24 ?bytes) = rate"
      unfolding hf using h by (intro uint32_exact) simp_all
    show "uint (getUint32 40 ?bytes) = int ?n * 2"
      unfolding hf using h by (intro uint32_exact) simp_all
    show "uint (getUint16 20 ?bytes) = 1" "uint (getUint16 22 ?bytes) = 1"
      "uint (getUint16 34 ?bytes) = 16"
      by (simp_all only: hf) simp_all
  qed
  have S: "\<forall>i < ?n.
           getInt16 (44 + 2 * i) ?bytes = toInteger (scaleSample (xs ! i))
           \<and> (clampSample (xs ! i) < 0 \<longrightarrow>
                \<bar>dequantize (getInt16 (44 + 2 * i) ?bytes) - clampSample (xs ! i)\<bar> < 1 / 32768)
           \<and> (0 \<le> clampSample (xs ! i) \<longrightarrow>
                \<bar>dequantize (getInt16 (44 + 2 * i) ?bytes) - clampSample (xs ! i)\<bar> < 1 / 32767)"
  proof (intro allI impI conjI)
    fix i
    assume i: "i < ?n"
    show g: "getInt16 (44 + 2 * i) ?bytes = toInteger (scaleSample (xs ! i))"
      by (rule payload_sample [OF i])
    show "\<bar>dequantize (getInt16 (44 + 2 * i) ?bytes) - clampSample (xs ! i)\<bar> < 1 / 32768"
      if "clampSample (xs ! i) < 0"
      unfolding g using that by (rule dequantize_error_neg)
    show "\<bar>dequantize (getInt16 (44 + 2 * i) ?bytes) - clampSample (xs ! i)\<bar> < 1 / 32767"
      if "0 \<le> clampSample (xs ! i)"
      unfolding g using that by (rule dequantize_error_nonneg)
  qed
  show ?thesis
    by (rule exI [of _ ?bytes]) (intro conjI a L H S)
qed

theorem roundtrip_witness:
  "\<exists>bytes. createWavBlob [1 / 2, - 1 / 4] 16000 = Inr bytes
     \<and> (0::int) \<le> 16000 \<and> (16000::int) < 2 ^ 32
     \<and> 36 + int (length [1 / 2, - 1 / 4 :: real]) * 2 < 2 ^ 32
     \<and> uint (getUint32 4 bytes) = 40
     \<and> uint (getUint32 24 bytes) = 16000
     \<and> (0::nat) < length [1 / 2, - 1 / 4 :: real]
     \<and> 0 \<le> clampSample ([1 / 2, - 1 / 4] ! 0)
     \<and> getInt16 (44 + 2 * 0) bytes = 16383
     \<and> \<bar>dequantize (getInt16 (44 + 2 * 0) bytes) - clampSample ([1 / 2, - 1 / 4] ! 0)\<bar> < 1 / 32767
     \<and> (1::nat) < length [1 / 2, - 1 / 4 :: real]
     \<and> clampSample ([1 / 2, - 1 / 4] ! 1) < 0
     \<and> getInt16 (44 + 2 * 1) bytes = - 8192
     \<and> \<bar>dequantize (getInt16 (44 + 2 * 1) bytes) - clampSample ([1 / 2, - 1 / 4] ! 1)\<bar> < 1 / 32768"
proof -
  let ?xs = "[1 / 2, - 1 / 4 :: real]"
  have t0: "toInteger (scaleSample (?xs ! 0)) = 16383"
    by (simp add: scaleSample_def clampSample_def toInteger_def Let_def)
  have t1: "toInteger (scaleSample (?xs ! 1)) = - 8192"
    by (simp add: scaleSample_def clampSample_def toInteger_def Let_def)
  have c0: "0 \<le> clampSample (?xs ! 0)" by (simp add: clampSample_def)
  have c1: "clampSample (?xs ! 1) < 0" by (simp add: clampSample_def)
  have h: "(0::int) \<le> 16000 \<and> (16000::int) < 2 ^ 32 \<and> 36 + int (length ?xs) * 2 < 2 ^ 32"
    by simp
  have i0: "(0::nat) < length ?xs" and i1: "(1::nat) < length ?xs" by simp_all
  from roundtrip [of ?xs 16000] obtain bytes where
    b: "createWavBlob ?xs 16000 = Inr bytes"
    and hd: "0 \<le> (16000::int) \<and> (16000::int) < 2 ^ 32 \<and> 36 + int (length ?xs) * 2 < 2 ^ 32 \<longrightarrow>
          uint (getUint32 4 bytes) = 36 + int (length ?xs) * 2
          \<and> uint (getUint16 20 bytes) = 1
          \<and> uint (getUint16 22 bytes) = 1
          \<and> uint (getUint32 24 bytes) = 16000
          \<and> uint (getUint16 34 bytes) = 16
          \<and> uint (getUint32 40 bytes) = int (length ?xs) * 2"
    and sm: "\<forall>i < length ?xs.
           getInt16 (44 + 2 * i) bytes = toInteger (scaleSample (?xs ! i))
           \<and> (clampSample (?xs ! i) < 0 \<longrightarrow>
                \<bar>dequantize (getInt16 (44 + 2 * i) bytes) - clampSample (?xs ! i)\<bar> < 1 / 32768)
           \<and> (0 \<le> clampSample (?xs ! i) \<longrightarrow>
                \<bar>dequantize (getInt16 (44 + 2 * i) bytes) - clampSample (?xs ! i)\<bar> < 1 / 32767)"
    by blast
  from hd h have f: "uint (getUint32 4 bytes) = 40" "uint (getUint32 24 bytes) = 16000"
    by simp_all
  from sm i0 c0 have s0: "getInt16 (44 + 2 * 0) bytes = toInteger (scaleSample (?xs ! 0))"
    "\<bar>dequantize (getInt16 (44 + 2 * 0) bytes) - clampSample (?xs ! 0)\<bar> < 1 / 32767"
    by blast+
  from sm i1 c1 have s1: "getInt16 (44 + 2 * 1) bytes = toInteger (scaleSample (?xs ! 1))"
    "\<bar>dequantize (getInt16 (44 + 2 * 1) bytes) - clampSample (?xs ! 1)\<bar> < 1 / 32768"
    by blast+
  show ?thesis
    by (rule exI [of _ bytes])
      (intro conjI b f i0 i1 c0 c1 s0(2) s1(2) s0(1) [unfolded t0] s1(1) [unfolded t1], simp_all)
qed

subsection \<open>Snapshot and export\<close>

text \<open>
  C1, as stated, fails twice: after the three appends the buffer holds 24000 samples, not
  32000, and every payload word of the export is 16383, not 16384.
\<close>

theorem capture_scenario_counterexample:
  "totalSamplesOf (audioBuffer (fold onaudioprocess
      [replicate 16000 (1 / 2), replicate 16000 (1 / 2), replicate 8000 (1 / 2)] (start 16000 2)))
     \<noteq> 32000
   \<and> (\<exists>bytes. createWavBlob (replicate 16000 (1 / 2)) 16000 = Inr bytes
         \<and> getInt16 44 bytes \<noteq> 16384)"
proof -
  have "getUint16 (44 + 2 * 0)
          (wavHeader 16000 16000 @ concat (map (\<lambda>x. bytes16 (pcm16 x) True) (replicate 16000 (1 / 2))))
        = pcm16 (replicate 16000 (1 / 2) ! 0)"
    by (rule payload_word) simp_all
  then have "getInt16 44
          (wavHeader 16000 16000 @ concat (map (\<lambda>x. bytes16 (pcm16 x) True) (replicate 16000 (1 / 2))))
        = 16383"
    by (simp add: getInt16_def pcm16_half)
  then have "\<exists>bytes. createWavBlob (replicate 16000 (1 / 2)) 16000 = Inr bytes
         \<and> getInt16 44 bytes \<noteq> 16384"
    using createWavBlob_layout [of "replicate 16000 (1 / 2)" 16000] by simp
  then show ?thesis unfolding scenario_buffer by simp
qed

text \<open>
  C1, amended. A session at sample rate 16000 with a 2-second window receives chunks of
  16000, 16000 and 8000 samples, all \<open>1 / 2\<close>. The third append evicts the first chunk
  whole, so 24000 samples remain. The snapshot of the last second is 16000 samples, all
  \<open>1 / 2\<close>, and its encoding has \<open>44 + 16000 * 2 = 32044\<close> bytes in which every
  payload word is the truncation of \<open>1 / 2 * 32767\<close>, that is 16383, low byte first.
\<close>

theorem capture_scenario:
  "let s = fold onaudioprocess
        [replicate 16000 (1 / 2), replicate 16000 (1 / 2), replicate 8000 (1 / 2)]
        (start 16000 2)
   in audioBuffer s = [replicate 16000 (1 / 2), replicate 8000 (1 / 2)]
      \<and> totalSamplesOf (audioBuffer s) = 24000
      \<and> trimmedAudioData s 1 = Inr (replicate 16000 (1 / 2))
      \<and> transcribeAudio (Suc m) (Suc n) s 1
          = Posted (wavHeader 16000 16000 @ concat (replicate 16000 (bytes16 16383 True)))
      \<and> createWavBlob (replicate 16000 (1 / 2)) 16000
          = Inr (wavHeader 16000 16000 @ concat (replicate 16000 (bytes16 16383 True)))
      \<and> length (wavHeader 16000 16000 @ concat (replicate 16000 (bytes16 16383 True))) = 32044
      \<and> bytes16 16383 True = [0xFF, 0x3F]
      \<and> sint (16383 :: 16 word) = 16383
      \<and> toInteger (1 / 2 * 32767) = 16383"
proof -
  let ?s = "fold onaudioprocess
        [replicate 16000 (1 / 2), replicate 16000 (1 / 2), replicate 8000 (1 / 2)]
        (start 16000 2)"
  have rate: "sampleRate ?s = 16000" by (simp add: start_def)
  have tot: "totalSamplesOf (audioBuffer ?s) = 24000" unfolding scenario_buffer by simp
  have snap: "trimmedAudioData ?s 1 = Inr (replicate 16000 (1 / 2))"
    unfolding trimmedAudioData_def tot rate samplesToKeepOf_scenario
    unfolding scenario_buffer using scenario_snapshot by simp
  have enc: "createWavBlob (replicate 16000 (1 / 2)) 16000
          = Inr (wavHeader 16000 16000 @ concat (replicate 16000 (bytes16 16383 True)))"
    using createWavBlob_layout [of "replicate 16000 (1 / 2)" 16000]
    by (simp add: pcm16_half)
  have tr: "transcribeAudio (Suc m) (Suc n) ?s 1
          = Posted (wavHeader 16000 16000 @ concat (replicate 16000 (bytes16 16383 True)))"
    unfolding transcribeAudio_def snap rate scenario_buffer by (simp add: enc)
  have len: "length (concat (replicate 16000 (bytes16 16383 True))) = 32000"
    by (simp add: length_concat sum_list_replicate)
  have b: "bytes16 16383 True = [0xFF, 0x3F]"
    by (simp add: bytes16_def)
  have t: "toInteger (1 / 2 * 32767) = 16383" by (simp add: toInteger_def)
  show ?thesis
    unfolding Let_def using scenario_buffer tot snap tr enc len b t by simp
qed

text \<open>
  C5, at a failing input. At 44100 Hz, after 15 chunks of 4096 samples, the buffer holds
  61440 samples, less than 5 seconds. The quotient \<open>61440 / 44100\<close> rounds to a double
  whose product with 44100 rounds to a double just below 61440, the floor is 61439, and
  the snapshot for 5 seconds has 61439 samples: the oldest retained sample is missing.
\<close>

theorem saturated_export_drops_a_sample:
  "let s = fold onaudioprocess (replicate 15 (replicate 4096 0)) (start 44100 30)
   in audioBuffer s = replicate 15 (replicate 4096 0)
      \<and> totalSamplesOf (audioBuffer s) = 61440
      \<and> real_of_int (totalSamplesOf (audioBuffer s)) / real_of_int (sampleRate s) < 5
      \<and> trimmedAudioData s 5 = Inr (replicate 61439 0)"
proof -
  let ?cs = "replicate 15 (replicate 4096 (0::real))"
  let ?s = "fold onaudioprocess ?cs (start 44100 30)"
  have tot: "totalSamplesOf ?cs = 61440"
    by (simp add: totalSamplesOf_concat concat_replicate_replicate)
  have ab: "audioBuffer ?s = ?cs"
    by (rule fold_keeps_all) (simp add: tot)
  have "sampleRate ?s = sampleRate (start 44100 30)" by (rule config_fold)
  then have rate: "sampleRate ?s = 44100" by (simp add: start_def)
  have "trimAudioBuffer ?cs 61439 = Inr (drop (length (concat ?cs) - nat 61439) (concat ?cs))"
    by (rule trimAudioBuffer_drop) simp
  then have tr: "trimAudioBuffer ?cs 61439 = Inr (replicate 61439 0)"
    by (simp add: concat_replicate_replicate)
  have snap: "trimmedAudioData ?s 5 = Inr (replicate 61439 0)"
    unfolding trimmedAudioData_def ab tot rate samplesToKeepOf_44100 using tr by simp
  show ?thesis unfolding Let_def using ab tot rate snap by simp
qed

text \<open>
  C6, at a failing input. At 48000 Hz, after 27 chunks of 4096 samples of which only the
  very first sample is not zero, a snapshot for 30 seconds, far more than the buffer
  holds, returns 110591 zeros: the samples come in order and none twice, but the oldest
  retained sample is not among them.
\<close>

theorem full_snapshot_drops_oldest_sample:
  "let s = fold onaudioprocess ((1 # replicate 4095 0) # replicate 26 (replicate 4096 0))
             (start 48000 30)
   in audioBuffer s = (1 # replicate 4095 0) # replicate 26 (replicate 4096 0)
      \<and> concat (audioBuffer s) = 1 # replicate 110591 0
      \<and> real_of_int (totalSamplesOf (audioBuffer s)) / real_of_int (sampleRate s) < 30
      \<and> trimmedAudioData s 30 = Inr (replicate 110591 0)"
proof -
  let ?cs = "(1 # replicate 4095 0) # replicate 26 (replicate 4096 (0::real))"
  let ?s = "fold onaudioprocess ?cs (start 48000 30)"
  have cc: "concat ?cs = 1 # replicate 110591 0"
    by (simp add: concat_replicate_replicate replicate_add [symmetric])
  have tot: "totalSamplesOf ?cs = 110592"
    unfolding totalSamplesOf_concat cc by simp
  have "totalSamplesOf ?cs \<le> 48000 * 30" unfolding tot by simp
  then have ab: "audioBuffer ?s = ?cs" by (rule fold_keeps_all)
  have "sampleRate ?s = sampleRate (start 48000 30)" by (rule config_fold)
  then have rate: "sampleRate ?s = 48000" by (simp add: start_def)
  have "trimAudioBuffer ?cs 110591 = Inr (drop (length (concat ?cs) - nat 110591) (concat ?cs))"
    by (rule trimAudioBuffer_drop) simp
  then have tr: "trimAudioBuffer ?cs 110591 = Inr (replicate 110591 0)"
    unfolding cc by simp
  have snap: "trimmedAudioData ?s 30 = Inr (replicate 110591 0)"
    unfolding trimmedAudioData_def ab tot rate samplesToKeepOf_48000 using tr by simp
  show ?thesis unfolding Let_def using ab cc tot rate snap by simp
qed

subsection \<open>Configuration\<close>

text \<open>
  C9, as stated, fails: a session starts with sample rate \<open>- 1\<close> and a window of 0
  seconds, the encoder accepts sample rate 0, and a snapshot for 0 seconds returns the
  empty sequence; none of them is an error.
\<close>

theorem configuration_counterexample:
  "start (- 1) 0 = \<lparr>sampleRate = - 1, bufferLimitSeconds = 0, audioBuffer = []\<rparr>
   \<and> createWavBlob [] 0 = Inr (wavHeader 0 0)
   \<and> trimmedAudioData (onaudioprocess [0] (start 16000 2)) 0 = Inr []"
proof -
  have "audioBuffer (onaudioprocess [0] (start 16000 2)) = [[0]]"
    by (simp add: onaudioprocess_def start_def Let_def)
  moreover have "samplesToKeepOf 16000 1 0 = 0" by (rule samplesToKeepOf_zero) simp_all
  moreover have "trimAudioBuffer [[0]] 0 = Inr (drop (length (concat [[0::real]]) - nat 0) (concat [[0]]))"
    by (rule trimAudioBuffer_drop) simp
  ultimately have "trimmedAudioData (onaudioprocess [0] (start 16000 2)) 0 = Inr []"
    by (simp add: trimmedAudioData_def start_def)
  moreover have "createWavBlob [] 0 = Inr (wavHeader 0 0)"
    using createWavBlob_layout [of "[]" 0] by simp
  ultimately show ?thesis by (simp add: start_def)
qed

text \<open>
  C9, amended. No operation validates its configuration and there is no configuration
  error. \<open>start\<close> accepts every sample rate and every window and yields an empty
  session, which takes appends; the encoder succeeds at every sample rate. The snapshot
  can fail only when the sample rate is positive and the export duration negative. Then,
  for every negative double (each is at most \<open>- (2 powi - 1074)\<close>), it does fail: the
  sample count is negative and the allocation of the output array throws a
  \<open>RangeError\<close>, which \<open>transcribeAudio\<close> catches and turns into its alert. With a
  sample rate that is not negative a snapshot for 0 seconds is the empty sequence.
\<close>

theorem no_configuration_check:
  "start rate limit = \<lparr>sampleRate = rate, bufferLimitSeconds = limit, audioBuffer = []\<rparr>
   \<and> audioBuffer (onaudioprocess c (start rate limit)) = [c]
   \<and> (\<exists>bytes. createWavBlob xs rate = Inr bytes)
   \<and> (0 \<le> sampleRate s \<longrightarrow> trimmedAudioData s 0 = Inr [])
   \<and> (0 < sampleRate s \<and> d \<le> - (2 powi (- 1074)) \<longrightarrow>
        trimmedAudioData s d = Inl RangeError
        \<and> (audioBuffer s = []
            \<or> transcribeAudio (Suc m) (Suc n) s d
               = Alert ''Error transcribing audio. Please ensure the API server is running.''))
   \<and> (trimmedAudioData s d = Inl e \<longrightarrow> e = RangeError \<and> 0 < sampleRate s \<and> d < 0)"
proof -
  have 0: "audioBuffer (onaudioprocess c (start rate limit)) = [c]"
    by (simp add: onaudioprocess_def start_def Let_def)
  have 1: "\<exists>bytes. createWavBlob xs rate = Inr bytes"
    using createWavBlob_layout [of xs rate] by blast
  have 2: "trimmedAudioData s 0 = Inr []" if "0 \<le> sampleRate s"
  proof -
    have "samplesToKeepOf (sampleRate s) (totalSamplesOf (audioBuffer s)) 0 = 0"
      using that by (intro samplesToKeepOf_zero totalSamplesOf_nonneg)
    moreover have "trimAudioBuffer (audioBuffer s) 0
        = Inr (drop (length (concat (audioBuffer s)) - nat 0) (concat (audioBuffer s)))"
      by (rule trimAudioBuffer_drop) simp
    ultimately show ?thesis by (simp add: trimmedAudioData_def)
  qed
  have 3: "trimmedAudioData s d = Inl RangeError"
    if "0 < sampleRate s" "d \<le> - (2 powi (- 1074))"
  proof -
    have "samplesToKeepOf (sampleRate s) (totalSamplesOf (audioBuffer s)) d < 0"
      using that by (intro samplesToKeepOf_negative totalSamplesOf_nonneg)
    then show ?thesis by (simp add: trimmedAudioData_def trimAudioBuffer_negative)
  qed
  have 4: "audioBuffer s = []
            \<or> transcribeAudio (Suc m) (Suc n) s d
               = Alert ''Error transcribing audio. Please ensure the API server is running.''"
    if "0 < sampleRate s" "d \<le> - (2 powi (- 1074))"
    using 3 [OF that] by (simp add: transcribeAudio_def)
  have 5: "e = RangeError \<and> 0 < sampleRate s \<and> d < 0" if "trimmedAudioData s d = Inl e"
    using trimmedAudioData_fails [OF that] by (cases e) simp
  show ?thesis using 0 1 2 3 4 5 by (simp add: start_def)
qed

theorem no_configuration_check_witness:
  "(0::int) < sampleRate (onaudioprocess [0] (start 16000 2))
   \<and> (- 1 :: real) \<le> - (2 powi (- 1074))
   \<and> trimmedAudioData (onaudioprocess [0] (start 16000 2)) 0 = Inr []
   \<and> trimmedAudioData (onaudioprocess [0] (start 16000 2)) (- 1) = Inl RangeError
   \<and> audioBuffer (onaudioprocess [0] (start 16000 2)) \<noteq> []
   \<and> transcribeAudio (Suc 0) (Suc 0) (onaudioprocess [0] (start 16000 2)) (- 1)
        = Alert ''Error transcribing audio. Please ensure the API server is running.''
   \<and> (- 1 :: real) < 0"
proof -
  let ?s = "onaudioprocess [0] (start 16000 2)"
  have b: "(0::int) < sampleRate ?s" by (simp add: start_def)
  have b': "(0::int) \<le> sampleRate ?s" by (simp add: start_def)
  have c: "(- 1 :: real) \<le> - (2 powi (- 1074))"
    by (simp add: power_int_minus field_simps)
  note t = no_configuration_check [of 16000 2 "[0]" "[]" ?s "- 1" 0 0 RangeError]
  from t have "audioBuffer ?s = [[0]]" by blast
  then have ne: "audioBuffer ?s \<noteq> []" by simp
  show ?thesis using t b b' c ne by blast
qed

end
